theory Spec2Isabelle
  imports Main
begin

section \<open>Token utilities (shared/token\_utils.py)\<close>

text \<open>
  \<^verbatim>\<open>DENOMINATIONS = [1, 2, 5, 10, 20, 50, 100, 200, 500, 2000]\<close>.
  Python integers are unbounded, hence \<^typ>\<open>int\<close>.
\<close>

definition DENOMINATIONS :: "int list" where
  "DENOMINATIONS = [1, 2, 5, 10, 20, 50, 100, 200, 500, 2000]"

text \<open>
  A token as the utilities see it is a dictionary carrying at least the keys
  \<^verbatim>\<open>serial_number\<close> and \<^verbatim>\<open>denomination\<close>; rows of the
  tokens table extend it with further columns.
\<close>

record tokdict =
  serial_number :: string
  denomination :: int

text \<open>
  \<^verbatim>\<open>make_change\<close>: the inner \<^verbatim>\<open>while remaining >= denom\<close> loop. Nothing in
  the loop itself bounds the number of iterations (for \<open>denom \<le> 0\<close> it never
  stops), so it is a partial function; \<open>None\<close> stands for a loop that does not return.
\<close>

partial_function (option) change_while :: "int \<Rightarrow> int list \<Rightarrow> int \<Rightarrow> (int list \<times> int) option" where
  "change_while denom change remaining =
     (if remaining \<ge> denom
      then change_while denom (change @ [denom]) (remaining - denom)
      else Some (change, remaining))"

declare change_while.simps [code]

text \<open>The outer \<^verbatim>\<open>for denom in sorted(DENOMINATIONS, reverse=True)\<close> loop.\<close>

fun change_for :: "int list \<Rightarrow> int list \<Rightarrow> int \<Rightarrow> (int list \<times> int) option" where
  "change_for [] change remaining = Some (change, remaining)"
| "change_for (denom # ds) change remaining =
     (case change_while denom change remaining of
        None \<Rightarrow> None
      | Some (change', remaining') \<Rightarrow> change_for ds change' remaining')"

definition make_change :: "int \<Rightarrow> int list option" where
  "make_change amount =
     (if amount \<le> 0 then Some []
      else map_option fst (change_for (rev (sort DENOMINATIONS)) [] amount))"

definition validate_denomination :: "int \<Rightarrow> bool" where
  "validate_denomination amount \<longleftrightarrow> amount \<in> set DENOMINATIONS"

definition tokens_to_amount :: "'a tokdict_scheme list \<Rightarrow> int" where
  "tokens_to_amount tokens = sum_list (map denomination tokens)"

text \<open>
  The greedy selection loop shared by \<^verbatim>\<open>calculate_change\<close> and the first pass of
  \<^verbatim>\<open>allocate_tokens_to_fi\<close>:
  \<^verbatim>\<open>for token in sorted_tokens: if total >= amount: break; selected.append(token); total += token['denomination']\<close>.
\<close>

fun greedy_select ::
  "'a tokdict_scheme list \<Rightarrow> int \<Rightarrow> 'a tokdict_scheme list \<Rightarrow> int \<Rightarrow> 'a tokdict_scheme list \<times> int" where
  "greedy_select [] amount selected total_spent = (selected, total_spent)"
| "greedy_select (token # rest) amount selected total_spent =
     (if total_spent \<ge> amount then (selected, total_spent)
      else greedy_select rest amount (selected @ [token]) (total_spent + denomination token))"

text \<open>
  \<^verbatim>\<open>calculate_change\<close> returns the triple (tokens\_to\_spend, change\_tokens, remaining).
  \<^verbatim>\<open>sorted(..., key=denomination, reverse=True)\<close> is a stable descending sort, which is
  what \<open>sort_key\<close> on the negated key computes.
\<close>

definition calculate_change ::
  "int \<Rightarrow> 'a tokdict_scheme list \<Rightarrow> ('a tokdict_scheme list \<times> int list \<times> int) option" where
  "calculate_change amount available_tokens =
     (let sorted_tokens = sort_key (\<lambda>t. - denomination t) available_tokens;
          (tokens_to_spend, total_spent) = greedy_select sorted_tokens amount [] 0
      in if total_spent < amount then Some ([], [], amount - total_spent)
         else (case make_change (total_spent - amount) of
                 None \<Rightarrow> None
               | Some change_tokens \<Rightarrow> Some (tokens_to_spend, change_tokens, 0)))"

text \<open>\<^verbatim>\<open>TokenBundle.select_for_payment\<close>; the bundle is its token list.\<close>

definition select_for_payment ::
  "'a tokdict_scheme list \<Rightarrow> int \<Rightarrow> ('a tokdict_scheme list \<times> int) option" where
  "select_for_payment tokens amount =
     (case calculate_change amount tokens of
        None \<Rightarrow> None
      | Some (tokens_to_spend, _, remaining) \<Rightarrow>
          if remaining > 0 then Some ([], remaining)
          else Some (tokens_to_spend, tokens_to_amount tokens_to_spend - amount))"

section \<open>The central bank's database (central\_bank/database.py)\<close>

subsection \<open>Tables\<close>

text \<open>
  One record per table of \<^verbatim>\<open>init_db\<close>; a nullable column is an \<open>option\<close>. A row of
  \<^verbatim>\<open>tokens\<close> extends the token dictionary by the remaining columns. Each table is the
  list of its rows in insertion order, and every table has a primary key.
\<close>

record token_row = tokdict +
  status :: "string option"
  current_owner :: "string option"
  owner_type :: "string option"
  minted_at :: int
  batch_id :: "string option"
  token_nullifier :: "string option"
  last_transfer_at :: "int option"

record financial_institution =
  fi_id :: string
  fi_name :: string
  api_url :: string
  public_key :: string
  fi_status :: "string option"
  registered_at :: int
  allocated_tokens :: "string option"

text \<open>
  Texts that the code builds with format strings are kept as terms: the purpose and
  description columns, and the key of a per-denomination batch
  (\<^verbatim>\<open>f"{batch_id}-{denom}"\<close>).
\<close>

datatype memo =
    Text string
  | Minted int int
  | MintedBreakdown "(int \<times> int) list"
  | AdditionalFor string
  | AllocationFor string
  | Mixed memo
  | AllocationTo string

datatype batch_key = Batch string | BatchDenom string int

record ledger_entry =
  entry_id :: string
  transaction_type :: string
  from_entity :: "string option"
  to_entity :: "string option"
  token_serials :: "string list"
  total_amount :: int
  description :: "memo option"
  zkp_proof :: "string option"
  timestamp :: int

record nullifier_row =
  nullifier :: string
  token_serial :: string
  spent_at :: int
  transaction_id :: "string option"

record token_batch =
  tb_batch_id :: batch_key
  tb_denomination :: int
  tb_count :: int
  tb_minted_at :: int
  tb_purpose :: "memo option"

text \<open>
  The state of the process: the five tables, and the position reached in the readings of
  the sources the code does not determine (\<^verbatim>\<open>secrets.token_hex\<close>, \<^verbatim>\<open>time.time\<close>, the
  SHA-256 digest inside \<^verbatim>\<open>generate_serial_number\<close>). A batch identifier and the
  timestamp taken right after it are read at the same position.
\<close>

record world =
  tokens :: "token_row list"
  financial_institutions :: "financial_institution list"
  ledger :: "ledger_entry list"
  nullifiers :: "nullifier_row list"
  token_batches :: "token_batch list"
  tick :: nat

text \<open>
  What those sources deliver at the k-th reading. \<open>serial_text\<close> is the text
  \<^verbatim>\<open>generate_serial_number\<close> returns for the given issuer, denomination and batch;
  \<open>token_hex\<close> is the hexadecimal text as the caller uses it.
\<close>

record env =
  token_hex :: "nat \<Rightarrow> string"
  clock_ms :: "nat \<Rightarrow> int"
  serial_text :: "nat \<Rightarrow> string \<Rightarrow> int \<Rightarrow> string \<Rightarrow> string"

text \<open>
  Failures. The first group are the \<^verbatim>\<open>{'error': ...}\<close> dictionaries the functions return;
  \<open>IntegrityError\<close> and \<open>ProgrammingError\<close> are the \<^verbatim>\<open>sqlite3\<close> exceptions raised by
  an insert that repeats a primary key and by a statement executed on a closed connection.
\<close>

datatype error =
    InvalidDenomination
  | InvalidCount
  | InvalidDenominationOf int
  | CountNotPositive int
  | CountTooLarge int
  | AmountNotPositive
  | CannotCreateExactAmount int
  | FIAlreadyRegistered string
  | FINotFound
  | TokenNotOwned string string
  | IntegrityError
  | ProgrammingError

fun raised :: "error \<Rightarrow> bool" where
  "raised IntegrityError = True"
| "raised ProgrammingError = True"
| "raised _ = False"

text \<open>
  The success dictionaries, with the keys that carry information of their own; the
  counts and the per-denomination breakdowns they also hold are computed from the token
  list for display.
\<close>

record mint_result =
  mr_batch_id :: string
  mr_total_value :: int
  mr_tokens :: "tokdict list"

record alloc_result =
  ar_fi_id :: string
  ar_amount :: int
  ar_tokens :: "tokdict list"
  ar_transaction_id :: string

record transfer_result =
  tr_transaction_id :: string
  tr_from_fi :: string
  tr_to_fi :: string
  tr_amount :: int
  tr_token_count :: nat

record money_supply =
  total_minted :: int
  in_circulation :: int
  in_cb_vault :: int
  in_fis :: int
  in_wallets :: int
  in_subwallets :: int
  by_denomination :: "(int \<times> nat) list"
  is_balanced :: bool

subsection \<open>Statements\<close>

text \<open>\<^verbatim>\<open>init_db\<close> on a fresh file: all tables exist and are empty.\<close>

definition init_db :: world where
  "init_db = \<lparr>tokens = [], financial_institutions = [], ledger = [], nullifiers = [],
               token_batches = [], tick = 0\<rparr>"

definition next_tick :: "world \<Rightarrow> world" where
  "next_tick w = w\<lparr>tick := Suc (tick w)\<rparr>"

text \<open>
  A connection that is closed, or abandoned by an exception, without \<^verbatim>\<open>commit\<close> loses
  the statements of its open transaction: the tables are those of \<open>w\<close> again, while the
  readings taken meanwhile stay taken.
\<close>

definition rollback :: "world \<Rightarrow> world \<Rightarrow> world" where
  "rollback w w' = w\<lparr>tick := tick w'\<rparr>"

text \<open>\<^verbatim>\<open>INSERT\<close> into a table with a primary key; \<open>None\<close> is \<^verbatim>\<open>sqlite3.IntegrityError\<close>.\<close>

definition insert_token :: "token_row \<Rightarrow> world \<Rightarrow> world option" where
  "insert_token row w =
     (if serial_number row \<in> set (map serial_number (tokens w)) then None
      else Some (w\<lparr>tokens := tokens w @ [row]\<rparr>))"

definition insert_batch :: "token_batch \<Rightarrow> world \<Rightarrow> world option" where
  "insert_batch row w =
     (if tb_batch_id row \<in> set (map tb_batch_id (token_batches w)) then None
      else Some (w\<lparr>token_batches := token_batches w @ [row]\<rparr>))"

definition insert_ledger :: "ledger_entry \<Rightarrow> world \<Rightarrow> world option" where
  "insert_ledger row w =
     (if entry_id row \<in> set (map entry_id (ledger w)) then None
      else Some (w\<lparr>ledger := ledger w @ [row]\<rparr>))"

text \<open>
  The loop common to the three minting functions: for each denomination of the list,
  generate a serial number, append the token dictionary to the result list and insert the
  row, owned by the central bank and active. \<open>Inl\<close> carries the state in which an insert
  failed.
\<close>

fun insert_tokens ::
  "env \<Rightarrow> string \<Rightarrow> int \<Rightarrow> int list \<Rightarrow> world \<Rightarrow> tokdict list \<Rightarrow> world + (world \<times> tokdict list)" where
  "insert_tokens e batch ts [] w toks = Inr (w, toks)"
| "insert_tokens e batch ts (denom # rest) w toks =
     (let serial = serial_text e (tick w) ''RBI'' denom batch;
          w1 = next_tick w
      in case insert_token
                \<lparr>serial_number = serial, denomination = denom, status = Some ''active'',
                 current_owner = Some ''CB'', owner_type = Some ''cb'', minted_at = ts,
                 batch_id = Some batch, token_nullifier = None, last_transfer_at = None\<rparr> w1 of
           None \<Rightarrow> Inl w1
         | Some w2 \<Rightarrow>
             insert_tokens e batch ts rest w2
               (toks @ [\<lparr>serial_number = serial, denomination = denom\<rparr>]))"

text \<open>The ledger row that every minting function writes last, followed by the commit.\<close>

definition record_mint ::
  "env \<Rightarrow> world \<Rightarrow> world \<Rightarrow> string \<Rightarrow> tokdict list \<Rightarrow> int \<Rightarrow> memo \<Rightarrow> int
   \<Rightarrow> (error + mint_result) \<times> world" where
  "record_mint e w0 w batch toks total_value descr ts =
     (let tx_id = ''mint-'' @ token_hex e (tick w);
          w1 = next_tick w
      in case insert_ledger
                \<lparr>entry_id = tx_id, transaction_type = ''mint'',
                 from_entity = Some ''CENTRAL_BANK'', to_entity = Some ''CB_VAULT'',
                 token_serials = map serial_number toks, total_amount = total_value,
                 description = Some descr, zkp_proof = None, timestamp = ts\<rparr> w1 of
           None \<Rightarrow> (Inl IntegrityError, rollback w0 w1)
         | Some w2 \<Rightarrow>
             (Inr \<lparr>mr_batch_id = batch, mr_total_value = total_value, mr_tokens = toks\<rparr>, w2))"

definition mint_tokens ::
  "env \<Rightarrow> world \<Rightarrow> int \<Rightarrow> int \<Rightarrow> memo \<Rightarrow> (error + mint_result) \<times> world" where
  "mint_tokens e w denom count purpose =
     (if denom \<notin> set DENOMINATIONS then (Inl InvalidDenomination, w)
      else if count \<le> 0 \<or> count > 10000 then (Inl InvalidCount, w)
      else
        let batch = ''BATCH-'' @ token_hex e (tick w);
            ts = clock_ms e (tick w);
            w1 = next_tick w
        in case insert_tokens e batch ts (replicate (nat count) denom) w1 [] of
             Inl wx \<Rightarrow> (Inl IntegrityError, rollback w wx)
           | Inr (w2, toks) \<Rightarrow>
               (case insert_batch
                       \<lparr>tb_batch_id = Batch batch, tb_denomination = denom, tb_count = count,
                        tb_minted_at = ts, tb_purpose = Some purpose\<rparr> w2 of
                  None \<Rightarrow> (Inl IntegrityError, rollback w w2)
                | Some w3 \<Rightarrow>
                    record_mint e w w3 batch toks (denom * count) (Minted count denom) ts))"

text \<open>
  \<^verbatim>\<open>mint_specific_denominations\<close>. The dictionary argument is the list of its items in
  iteration order.
\<close>

fun validate_counts :: "(int \<times> int) list \<Rightarrow> error option" where
  "validate_counts [] = None"
| "validate_counts ((denom, count) # rest) =
     (if denom \<notin> set DENOMINATIONS then Some (InvalidDenominationOf denom)
      else if count \<le> 0 then Some (CountNotPositive denom)
      else if count > 10000 then Some (CountTooLarge denom)
      else validate_counts rest)"

fun mint_each ::
  "env \<Rightarrow> string \<Rightarrow> int \<Rightarrow> memo \<Rightarrow> (int \<times> int) list \<Rightarrow> world \<Rightarrow> tokdict list
   \<Rightarrow> (int \<times> int) list \<Rightarrow> int
   \<Rightarrow> world + (world \<times> tokdict list \<times> (int \<times> int) list \<times> int)" where
  "mint_each e batch ts purpose [] w all_tokens breakdown total_value =
     Inr (w, all_tokens, breakdown, total_value)"
| "mint_each e batch ts purpose ((denom, count) # rest) w all_tokens breakdown total_value =
     (if count \<le> 0 then mint_each e batch ts purpose rest w all_tokens breakdown total_value
      else
        case insert_tokens e batch ts (replicate (nat count) denom) w all_tokens of
          Inl wx \<Rightarrow> Inl wx
        | Inr (w1, toks) \<Rightarrow>
            (case insert_batch
                    \<lparr>tb_batch_id = BatchDenom batch denom, tb_denomination = denom,
                     tb_count = count, tb_minted_at = ts, tb_purpose = Some purpose\<rparr> w1 of
               None \<Rightarrow> Inl w1
             | Some w2 \<Rightarrow>
                 mint_each e batch ts purpose rest w2 toks (breakdown @ [(denom, count)])
                   (total_value + denom * count)))"

definition mint_specific_denominations ::
  "env \<Rightarrow> world \<Rightarrow> (int \<times> int) list \<Rightarrow> memo \<Rightarrow> (error + mint_result) \<times> world" where
  "mint_specific_denominations e w denomination_counts purpose =
     (case validate_counts denomination_counts of
        Some err \<Rightarrow> (Inl err, w)
      | None \<Rightarrow>
          let batch = ''BATCH-'' @ token_hex e (tick w);
              ts = clock_ms e (tick w);
              w1 = next_tick w
          in case mint_each e batch ts purpose denomination_counts w1 [] [] 0 of
               Inl wx \<Rightarrow> (Inl IntegrityError, rollback w wx)
             | Inr (w2, all_tokens, breakdown, total_value) \<Rightarrow>
                 record_mint e w w2 batch all_tokens total_value (MintedBreakdown breakdown) ts)"

text \<open>
  \<^verbatim>\<open>mint_mixed_tokens\<close>. It runs \<open>make_change\<close>, so it returns only if that does.
\<close>

definition mint_mixed_tokens ::
  "env \<Rightarrow> world \<Rightarrow> int \<Rightarrow> memo \<Rightarrow> ((error + mint_result) \<times> world) option" where
  "mint_mixed_tokens e w amount purpose =
     (if amount \<le> 0 then Some (Inl AmountNotPositive, w)
      else
        case make_change amount of
          None \<Rightarrow> None
        | Some denominations_needed \<Rightarrow>
            if sum_list denominations_needed \<noteq> amount
            then Some (Inl (CannotCreateExactAmount amount), w)
            else
              let batch = ''BATCH-'' @ token_hex e (tick w);
                  ts = clock_ms e (tick w);
                  w1 = next_tick w
              in case insert_tokens e batch ts denominations_needed w1 [] of
                   Inl wx \<Rightarrow> Some (Inl IntegrityError, rollback w wx)
                 | Inr (w2, toks) \<Rightarrow>
                     (case insert_batch
                             \<lparr>tb_batch_id = Batch batch, tb_denomination = 0,
                              tb_count = int (length toks), tb_minted_at = ts,
                              tb_purpose = Some (Mixed purpose)\<rparr> w2 of
                        None \<Rightarrow> Some (Inl IntegrityError, rollback w w2)
                      | Some w3 \<Rightarrow> Some (record_mint e w w3 batch toks amount purpose ts)))"

text \<open>
  \<^verbatim>\<open>register_fi\<close>. The public key is derived from a fresh random private key; its text
  is a reading of the environment.
\<close>

definition register_fi ::
  "env \<Rightarrow> world \<Rightarrow> string \<Rightarrow> string \<Rightarrow> string \<Rightarrow> (error + financial_institution) \<times> world" where
  "register_fi e w fid name url =
     (if fid \<in> set (map fi_id (financial_institutions w)) then (Inl (FIAlreadyRegistered fid), w)
      else
        let row = \<lparr>fi_id = fid, fi_name = name, api_url = url,
                   public_key = ''pk_'' @ token_hex e (tick w), fi_status = Some ''active'',
                   registered_at = clock_ms e (tick w), allocated_tokens = Some ''[]''\<rparr>;
            w1 = next_tick w
        in (Inr row, w1\<lparr>financial_institutions := financial_institutions w1 @ [row]\<rparr>))"

text \<open>
  The vault query of \<^verbatim>\<open>allocate_tokens_to_fi\<close>:
  \<^verbatim>\<open>SELECT serial_number, denomination FROM tokens WHERE current_owner = 'CB' AND status = 'active' ORDER BY denomination DESC\<close>.
  SQL leaves the order of rows with equal denomination open; the model keeps them in
  insertion order.
\<close>

definition row_dict :: "token_row \<Rightarrow> tokdict" where
  "row_dict r = \<lparr>serial_number = serial_number r, denomination = denomination r\<rparr>"

definition cb_vault :: "world \<Rightarrow> tokdict list" where
  "cb_vault w =
     map row_dict
       (sort_key (\<lambda>r. - denomination r)
          (filter (\<lambda>r. current_owner r = Some ''CB'' \<and> status r = Some ''active'') (tokens w)))"

text \<open>
  The second pass over the vault, in ascending order:
  \<^verbatim>\<open>if total + token['denomination'] <= amount: selected.append(token); total += ...\<close>.
\<close>

fun exact_select :: "tokdict list \<Rightarrow> int \<Rightarrow> tokdict list \<Rightarrow> int \<Rightarrow> tokdict list \<times> int" where
  "exact_select [] amount selected total_spent = (selected, total_spent)"
| "exact_select (token # rest) amount selected total_spent =
     (if total_spent + denomination token \<le> amount
      then exact_select rest amount (selected @ [token]) (total_spent + denomination token)
      else exact_select rest amount selected total_spent)"

text \<open>\<^verbatim>\<open>UPDATE tokens SET current_owner = ?, owner_type = 'fi', last_transfer_at = ? WHERE serial_number = ?\<close>\<close>

definition allocate_row :: "string \<Rightarrow> int \<Rightarrow> string \<Rightarrow> token_row list \<Rightarrow> token_row list" where
  "allocate_row fid ts serial rows =
     map (\<lambda>r. if serial_number r = serial
               then r\<lparr>current_owner := Some fid, owner_type := Some ''fi'',
                      last_transfer_at := Some ts\<rparr>
               else r) rows"

text \<open>
  The tail of \<^verbatim>\<open>allocate_tokens_to_fi\<close> from \<^verbatim>\<open>timestamp = ...\<close> on, executed on the
  connection opened at the start of the call: the ownership updates, the ledger row, the
  commit.
\<close>

definition commit_allocation ::
  "env \<Rightarrow> world \<Rightarrow> string \<Rightarrow> financial_institution \<Rightarrow> tokdict list \<Rightarrow> int
   \<Rightarrow> (error + alloc_result) \<times> world" where
  "commit_allocation e w fid fi selected total_spent =
     (let ts = clock_ms e (tick w);
          w1 = next_tick w;
          w2 = w1\<lparr>tokens := fold (\<lambda>t rows. allocate_row fid ts (serial_number t) rows)
                                selected (tokens w1)\<rparr>;
          tx_id = ''alloc-'' @ token_hex e (tick w2);
          w3 = next_tick w2
      in case insert_ledger
                \<lparr>entry_id = tx_id, transaction_type = ''allocation'',
                 from_entity = Some ''CB'', to_entity = Some fid,
                 token_serials = map serial_number selected, total_amount = total_spent,
                 description = Some (AllocationTo (fi_name fi)), zkp_proof = None,
                 timestamp = ts\<rparr> w3 of
           None \<Rightarrow> (Inl IntegrityError, rollback w w3)
         | Some w4 \<Rightarrow>
             (Inr \<lparr>ar_fi_id = fid, ar_amount = total_spent, ar_tokens = selected,
                   ar_transaction_id = tx_id\<rparr>, w4))"

text \<open>
  \<^verbatim>\<open>allocate_tokens_to_fi\<close>. The function calls itself after minting the difference, with
  no bound of its own on the depth, so it is a partial function. In the branch that
  mints the whole amount the connection has been closed before the mint, and the
  statements after it run on that closed connection: the clock is read, and the first
  statement then raises \<^verbatim>\<open>sqlite3.ProgrammingError\<close>, after the mint has been committed
  on its own connection.
\<close>

partial_function (option) allocate_tokens_to_fi ::
  "env \<Rightarrow> world \<Rightarrow> string \<Rightarrow> int \<Rightarrow> ((error + alloc_result) \<times> world) option" where
  "allocate_tokens_to_fi e w fid amount =
     (case find (\<lambda>f. fi_id f = fid) (financial_institutions w) of
        None \<Rightarrow> Some (Inl FINotFound, w)
      | Some fi \<Rightarrow>
          (case greedy_select (cb_vault w) amount [] 0 of
             (selected, total_spent) \<Rightarrow>
               if total_spent < amount then
                 (case mint_mixed_tokens e w (amount - total_spent) (AdditionalFor fid) of
                    None \<Rightarrow> None
                  | Some (Inl err, w1) \<Rightarrow> Some (Inl err, w1)
                  | Some (Inr mint_result, w1) \<Rightarrow> allocate_tokens_to_fi e w1 fid amount)
               else if total_spent > amount then
                 (case exact_select (sort_key denomination (cb_vault w)) amount [] 0 of
                    (selected', total_spent') \<Rightarrow>
                      if total_spent' < amount then
                        (case mint_mixed_tokens e w amount (AllocationFor fid) of
                           None \<Rightarrow> None
                         | Some (Inl err, w1) \<Rightarrow> Some (Inl err, w1)
                         | Some (Inr mint_result, w1) \<Rightarrow>
                             Some (Inl ProgrammingError, next_tick w1))
                      else Some (commit_allocation e w fid fi selected' total_spent'))
               else Some (commit_allocation e w fid fi selected total_spent)))"

declare allocate_tokens_to_fi.simps [code]

text \<open>\<^verbatim>\<open>get_fi_tokens\<close> and the balance of \<^verbatim>\<open>get_all_fis\<close>.\<close>

definition get_fi_tokens :: "world \<Rightarrow> string \<Rightarrow> token_row list" where
  "get_fi_tokens w fid =
     sort_key (\<lambda>r. - denomination r)
       (filter (\<lambda>r. current_owner r = Some fid \<and> status r = Some ''active'') (tokens w))"

definition fi_balance :: "world \<Rightarrow> string \<Rightarrow> int" where
  "fi_balance w fid =
     sum_list (map denomination
       (filter (\<lambda>r. current_owner r = Some fid \<and> status r = Some ''active'') (tokens w)))"

text \<open>\<^verbatim>\<open>get_money_supply\<close>; \<^verbatim>\<open>SUM(...) or 0\<close> is the sum of the selected rows.\<close>

definition sum_where :: "(token_row \<Rightarrow> bool) \<Rightarrow> world \<Rightarrow> int" where
  "sum_where p w = sum_list (map denomination (filter p (tokens w)))"

definition get_money_supply :: "world \<Rightarrow> money_supply" where
  "get_money_supply w =
     (let minted = sum_where (\<lambda>r. status r \<noteq> None \<and> status r \<noteq> Some ''destroyed'') w;
          in_cb = sum_where (\<lambda>r. current_owner r = Some ''CB'' \<and> status r = Some ''active'') w;
          fis = sum_where (\<lambda>r. owner_type r = Some ''fi'' \<and> status r = Some ''active'') w;
          wallets = sum_where (\<lambda>r. owner_type r = Some ''wallet'' \<and> status r = Some ''active'') w;
          subwallets =
            sum_where (\<lambda>r. owner_type r = Some ''subwallet'' \<and> status r = Some ''active'') w;
          active = filter (\<lambda>r. status r = Some ''active'') (tokens w)
      in \<lparr>total_minted = minted,
          in_circulation = minted - in_cb,
          in_cb_vault = in_cb, in_fis = fis, in_wallets = wallets, in_subwallets = subwallets,
          by_denomination =
            map (\<lambda>d. (d, length (filter (\<lambda>r. denomination r = d) active)))
              (rev (sort (remdups (map denomination active)))),
          is_balanced = (in_cb + fis + wallets + subwallets = minted)\<rparr>)"

text \<open>
  \<^verbatim>\<open>transfer_tokens_between_fis\<close>. The loop looks each serial up with
  \<^verbatim>\<open>SELECT * FROM tokens WHERE serial_number = ? AND current_owner = ?\<close> and updates the
  row; the updates are part of the connection's open transaction, which later lookups of
  the same call see. \<open>Inl\<close> carries the serial at which the lookup found no row.
\<close>

definition transfer_row :: "string \<Rightarrow> int \<Rightarrow> string \<Rightarrow> token_row list \<Rightarrow> token_row list" where
  "transfer_row to_fi ts serial rows =
     map (\<lambda>r. if serial_number r = serial
               then r\<lparr>current_owner := Some to_fi, last_transfer_at := Some ts\<rparr>
               else r) rows"

fun transfer_loop ::
  "string \<Rightarrow> string \<Rightarrow> int \<Rightarrow> string list \<Rightarrow> token_row list \<Rightarrow> int
   \<Rightarrow> string + (token_row list \<times> int)" where
  "transfer_loop from_fi to_fi ts [] rows total_spent = Inr (rows, total_spent)"
| "transfer_loop from_fi to_fi ts (serial # rest) rows total_spent =
     (case find (\<lambda>r. serial_number r = serial \<and> current_owner r = Some from_fi) rows of
        None \<Rightarrow> Inl serial
      | Some token \<Rightarrow>
          transfer_loop from_fi to_fi ts rest (transfer_row to_fi ts serial rows)
            (total_spent + denomination token))"

definition transfer_tokens_between_fis ::
  "env \<Rightarrow> world \<Rightarrow> string \<Rightarrow> string \<Rightarrow> string list \<Rightarrow> (error + transfer_result) \<times> world" where
  "transfer_tokens_between_fis e w from_fi to_fi serials =
     (let ts = clock_ms e (tick w);
          w1 = next_tick w
      in case transfer_loop from_fi to_fi ts serials (tokens w1) 0 of
           Inl serial \<Rightarrow> (Inl (TokenNotOwned serial from_fi), rollback w w1)
         | Inr (rows, total_spent) \<Rightarrow>
             (let tx_id = ''xfi-'' @ token_hex e (tick w1);
                  w2 = next_tick (w1\<lparr>tokens := rows\<rparr>)
              in case insert_ledger
                        \<lparr>entry_id = tx_id, transaction_type = ''cross_fi_transfer'',
                         from_entity = Some from_fi, to_entity = Some to_fi,
                         token_serials = serials, total_amount = total_spent,
                         description = None, zkp_proof = None, timestamp = ts\<rparr> w2 of
                   None \<Rightarrow> (Inl IntegrityError, rollback w w2)
                 | Some w3 \<Rightarrow>
                     (Inr \<lparr>tr_transaction_id = tx_id, tr_from_fi = from_fi, tr_to_fi = to_fi,
                           tr_amount = total_spent, tr_token_count = length serials\<rparr>, w3)))"

subsection \<open>The nullifier registry\<close>

text \<open>
  Modelled from the spec: the \<^verbatim>\<open>consume(nullifierValue, tokenSerial, txId)\<close> operation of the
  nullifier registry. The repository declares the \<^verbatim>\<open>nullifiers\<close> table with the nullifier
  as primary key and has no function that reads or writes it. Following the specification,
  \<open>consume\<close> inserts a row for the value if the table has none and answers \<open>Ok\<close>, and
  answers \<open>AlreadySpent\<close> without touching the state if it has one. The time of the
  insertion is a reading of the clock.
\<close>

datatype consume_result = Ok | AlreadySpent

definition consume ::
  "env \<Rightarrow> world \<Rightarrow> string \<Rightarrow> string \<Rightarrow> string \<Rightarrow> consume_result \<times> world" where
  "consume e w nullifier_value serial tx_id =
     (if nullifier_value \<in> set (map nullifier (nullifiers w)) then (AlreadySpent, w)
      else
        let w1 = next_tick w
        in (Ok, w1\<lparr>nullifiers := nullifiers w1 @
                      [\<lparr>nullifier = nullifier_value, token_serial = serial,
                        spent_at = clock_ms e (tick w), transaction_id = Some tx_id\<rparr>]\<rparr>))"

subsection \<open>Sequences of operations and the audited quantities\<close>

datatype operation =
    MintTokens int int memo
  | MintSpecific "(int \<times> int) list" memo
  | MintMixed int memo
  | RegisterFI string string string
  | Allocate string int
  | Transfer string string "string list"

text \<open>One call; the state after it, whatever the call returned or raised.\<close>

fun step :: "env \<Rightarrow> world \<Rightarrow> operation \<Rightarrow> world option" where
  "step e w (MintTokens denom count purpose) = Some (snd (mint_tokens e w denom count purpose))"
| "step e w (MintSpecific denomination_counts purpose) =
     Some (snd (mint_specific_denominations e w denomination_counts purpose))"
| "step e w (MintMixed amount purpose) = map_option snd (mint_mixed_tokens e w amount purpose)"
| "step e w (RegisterFI fid name url) = Some (snd (register_fi e w fid name url))"
| "step e w (Allocate fid amount) = map_option snd (allocate_tokens_to_fi e w fid amount)"
| "step e w (Transfer from_fi to_fi serials) =
     Some (snd (transfer_tokens_between_fis e w from_fi to_fi serials))"

fun run :: "env \<Rightarrow> world \<Rightarrow> operation list \<Rightarrow> world option" where
  "run e w [] = Some w"
| "run e w (op # ops) = (case step e w op of None \<Rightarrow> None | Some w' \<Rightarrow> run e w' ops)"

text \<open>
  The quantities of the conservation property: the value of the active tokens, the value
  of the destroyed tokens, and the value minted according to the ledger.
\<close>

definition active_total :: "world \<Rightarrow> int" where
  "active_total w = sum_where (\<lambda>r. status r = Some ''active'') w"

definition destroyed_total :: "world \<Rightarrow> int" where
  "destroyed_total w = sum_where (\<lambda>r. status r = Some ''destroyed'') w"

definition minted_total :: "world \<Rightarrow> int" where
  "minted_total w =
     sum_list (map total_amount (filter (\<lambda>x. transaction_type x = ''mint'') (ledger w)))"

text \<open>
  Sequences in which the vault's own identifier \<^verbatim>\<open>'CB'\<close> is never the institution of an
  allocation nor an endpoint of a transfer.
\<close>

fun cb_free :: "operation \<Rightarrow> bool" where
  "cb_free (Allocate fid amount) = (fid \<noteq> ''CB'')"
| "cb_free (Transfer from_fi to_fi serials) = (from_fi \<noteq> ''CB'' \<and> to_fi \<noteq> ''CB'')"
| "cb_free _ = True"

text \<open>
  The two passes of \<^verbatim>\<open>allocate_tokens_to_fi\<close> as quantities: the total the descending
  pass accumulates, the value of the whole vault, and the total of the ascending pass.
\<close>

definition first_pass_total :: "world \<Rightarrow> int \<Rightarrow> int" where
  "first_pass_total w amount = snd (greedy_select (cb_vault w) amount [] 0)"

definition vault_total :: "world \<Rightarrow> int" where
  "vault_total w = tokens_to_amount (cb_vault w)"

definition exact_pass_total :: "world \<Rightarrow> int \<Rightarrow> int" where
  "exact_pass_total w amount =
     snd (exact_select (sort_key denomination (cb_vault w)) amount [] 0)"

definition registered :: "world \<Rightarrow> string \<Rightarrow> bool" where
  "registered w fid \<longleftrightarrow> find (\<lambda>f. fi_id f = fid) (financial_institutions w) \<noteq> None"

text \<open>
  A token dictionary names a row of the tokens table, and every row with its serial
  number is owned by the institution.
\<close>

definition held_by :: "world \<Rightarrow> string \<Rightarrow> tokdict \<Rightarrow> bool" where
  "held_by w fid t \<longleftrightarrow>
     t \<in> set (map row_dict (tokens w))
     \<and> list_all (\<lambda>r. current_owner r = Some fid \<and> owner_type r = Some ''fi'')
          (filter (\<lambda>r. serial_number r = serial_number t) (tokens w))"

text \<open>
  The state in which a call of \<^verbatim>\<open>allocate_tokens_to_fi\<close> calls itself, if it does: the
  institution is registered, the descending pass ends below the amount, and the mint of
  the difference succeeds.
\<close>

definition retry_state :: "env \<Rightarrow> world \<Rightarrow> string \<Rightarrow> int \<Rightarrow> world option" where
  "retry_state e w fid amount =
     (if registered w fid \<and> first_pass_total w amount < amount then
        (case mint_mixed_tokens e w (amount - first_pass_total w amount) (AdditionalFor fid) of
           Some (Inr r, w1) \<Rightarrow> Some w1
         | _ \<Rightarrow> None)
      else None)"

subsection \<open>A concrete environment and concrete states\<close>

text \<open>
  An environment whose readings differ from one another: the k-th text is k letters long.
\<close>

definition env0 :: env where
  "env0 = \<lparr>token_hex = (\<lambda>k. replicate k (CHR ''a'')),
           clock_ms = (\<lambda>k. int k),
           serial_text = (\<lambda>k issuer denom batch. replicate k (CHR ''s''))\<rparr>"

text \<open>Two institutions holding one active token of 100 each.\<close>

definition two_token_world :: world where
  "two_token_world =
     \<lparr>tokens = [\<lparr>serial_number = ''100-AAAA'', denomination = 100, status = Some ''active'',
                 current_owner = Some ''FI-A'', owner_type = Some ''fi'', minted_at = 0,
                 batch_id = Some ''BATCH-0'', token_nullifier = None,
                 last_transfer_at = Some 1\<rparr>,
                \<lparr>serial_number = ''100-BBBB'', denomination = 100, status = Some ''active'',
                 current_owner = Some ''FI-B'', owner_type = Some ''fi'', minted_at = 0,
                 batch_id = Some ''BATCH-0'', token_nullifier = None,
                 last_transfer_at = Some 2\<rparr>],
      financial_institutions = [], ledger = [], nullifiers = [], token_batches = [],
      tick = 0\<rparr>"

text \<open>
  The state after registering FI-A and minting one token of 100: the vault is worth 100.
\<close>

definition vault_100_world :: world where
  "vault_100_world =
     the (run env0 init_db [RegisterFI ''FI-A'' ''Bank A'' ''http://a'',
                            MintTokens 100 1 (Text ''x'')])"

text \<open>
  A sequence that registers an institution, mints, allocates (with a mint of the
  difference) and transfers the two allocated tokens to a second institution.
\<close>

definition example_ops :: "operation list" where
  "example_ops =
     [RegisterFI ''FI-A'' ''Bank A'' ''http://a'',
      MintTokens 100 1 (Text ''x''),
      Allocate ''FI-A'' 150,
      Transfer ''FI-A'' ''FI-B'' [''ss'', ''sssss'']]"



subsection \<open>Specification functions used in the proofs\<close>

text \<open>
  The closed form of the greedy decomposition over a list of positive denominations, the
  number of tokens it uses, and the property that one more token of the system never
  costs the greedy count more than one.
\<close>

fun greedy :: "int list \<Rightarrow> int \<Rightarrow> int list" where
  "greedy [] r = []"
| "greedy (d # ds) r = replicate (nat (r div d)) d @ greedy ds (r mod d)"

fun gcount :: "int list \<Rightarrow> int \<Rightarrow> nat" where
  "gcount [] r = 0"
| "gcount (d # ds) r = nat (r div d) + gcount ds (r mod d)"

definition subadditive :: "int list \<Rightarrow> bool" where
  "subadditive ds \<longleftrightarrow> (\<forall>n x. 0 \<le> n \<and> x \<in> set ds \<longrightarrow> gcount ds (n + x) \<le> gcount ds n + 1)"

text \<open>
  For the database: a row as the minting functions insert it; the effect of a successful
  mint of value \<open>n\<close>; the effect of the inserts that precede its ledger entry; the two
  kinds of outcome of a minting function (a failure that leaves all tables as they were, a
  success that appended vault rows worth the value of the result and one mint entry of
  that value); and the two invariants of the ledger, one relating the tokens to the
  ledger's mint entries, one sorting every token into exactly one tier.
\<close>

definition vault_row :: "token_row \<Rightarrow> bool" where
  "vault_row r \<longleftrightarrow>
     status r = Some ''active'' \<and> current_owner r = Some ''CB'' \<and> owner_type r = Some ''cb''"

definition minted_step :: "world \<Rightarrow> world \<Rightarrow> int \<Rightarrow> tokdict list \<Rightarrow> bool" where
  "minted_step w w' n toks \<longleftrightarrow>
     (\<exists>new entry.
        tokens w' = tokens w @ new \<and> list_all vault_row new
        \<and> sum_list (map denomination new) = n \<and> toks = map row_dict new
        \<and> distinct (map serial_number new)
        \<and> set (map serial_number new) \<inter> set (map serial_number (tokens w)) = {}
        \<and> ledger w' = ledger w @ [entry] \<and> transaction_type entry = ''mint''
        \<and> total_amount entry = n
        \<and> financial_institutions w' = financial_institutions w
        \<and> nullifiers w' = nullifiers w)"

definition appended :: "world \<Rightarrow> world \<Rightarrow> token_row list \<Rightarrow> bool" where
  "appended w w' new \<longleftrightarrow>
     tokens w' = tokens w @ new \<and> list_all vault_row new
     \<and> distinct (map serial_number new)
     \<and> set (map serial_number new) \<inter> set (map serial_number (tokens w)) = {}
     \<and> ledger w' = ledger w
     \<and> financial_institutions w' = financial_institutions w
     \<and> nullifiers w' = nullifiers w"

definition mint_outcome :: "world \<Rightarrow> (error + mint_result) \<times> world \<Rightarrow> bool" where
  "mint_outcome w out \<longleftrightarrow>
     (case out of
        (Inl err, w') \<Rightarrow> w' = w\<lparr>tick := tick w'\<rparr>
      | (Inr r, w') \<Rightarrow> minted_step w w' (mr_total_value r) (mr_tokens r))"

definition ledger_ok :: "world \<Rightarrow> bool" where
  "ledger_ok w \<longleftrightarrow>
     (\<forall>r\<in>set (tokens w). status r = Some ''active'')
     \<and> sum_list (map denomination (tokens w)) = minted_total w
     \<and> distinct (map serial_number (tokens w))"

definition tier_row :: "token_row \<Rightarrow> bool" where
  "tier_row r \<longleftrightarrow>
     (current_owner r = Some ''CB'' \<and> owner_type r = Some ''cb'')
     \<or> (current_owner r \<noteq> Some ''CB'' \<and> owner_type r = Some ''fi'')"

definition tiers_ok :: "world \<Rightarrow> bool" where
  "tiers_ok w \<longleftrightarrow> list_all tier_row (tokens w)"

section \<open>Properties of the token utilities\<close>

subsection \<open>The change loop in closed form\<close>

lemma diff_div_self: "0 < (d::int) \<Longrightarrow> (r - d) div d = r div d - 1"
  using div_add_self2 [of d "r - d"] by simp

lemma change_while_pos:
  "0 < denom \<Longrightarrow> 0 \<le> remaining \<Longrightarrow>
   change_while denom change remaining =
     Some (change @ replicate (nat (remaining div denom)) denom, remaining mod denom)"
proof (induction "nat remaining" arbitrary: remaining change rule: less_induct)
  case less
  show ?case
  proof (cases "remaining \<ge> denom")
    case True
    have m: "(remaining - denom) mod denom = remaining mod denom"
      by (simp add: mod_diff_right_eq)
    have p: "remaining div denom \<ge> 1"
      using True less.prems pos_imp_zdiv_pos_iff [of denom remaining] by simp
    have ih: "change_while denom (change @ [denom]) (remaining - denom) =
       Some ((change @ [denom]) @ replicate (nat ((remaining - denom) div denom)) denom,
             (remaining - denom) mod denom)"
      using less.prems True by (intro less.hyps) auto
    have r: "replicate (nat (remaining div denom)) denom =
       denom # replicate (nat (remaining div denom - 1)) denom"
      using p by (cases "nat (remaining div denom)") (auto simp: nat_diff_distrib)
    show ?thesis
      using True ih less.prems by (subst change_while.simps) (simp add: diff_div_self m r)
  next
    case False
    then show ?thesis using less.prems
      by (subst change_while.simps) (simp add: div_pos_pos_trivial mod_pos_pos_trivial)
  qed
qed

lemma change_for_pos:
  "\<forall>d\<in>set ds. 0 < d \<Longrightarrow> 0 \<le> r \<Longrightarrow>
   change_for ds c r = Some (c @ greedy ds r, fold (\<lambda>d r. r mod d) ds r)"
proof (induction ds arbitrary: c r)
  case Nil
  then show ?case by simp
next
  case (Cons d ds)
  have d: "0 < d" using Cons.prems(1) by simp
  have w: "change_while d c r = Some (c @ replicate (nat (r div d)) d, r mod d)"
    using d Cons.prems(2) by (rule change_while_pos)
  have m: "0 \<le> r mod d" using d by simp
  have ds: "\<forall>x\<in>set ds. 0 < x" using Cons.prems(1) by simp
  have ih: "change_for ds (c @ replicate (nat (r div d)) d) (r mod d) =
      Some ((c @ replicate (nat (r div d)) d) @ greedy ds (r mod d),
            fold (\<lambda>d r. r mod d) ds (r mod d))"
    using ds m by (rule Cons.IH)
  show ?case by (simp add: w ih)
qed

lemma desc_denominations:
  "rev (sort DENOMINATIONS) = [2000, 500, 200, 100, 50, 20, 10, 5, 2, 1]"
  by (simp add: DENOMINATIONS_def)

lemma make_change_greedy:
  assumes "0 < amount"
  shows "make_change amount = Some (greedy (rev (sort DENOMINATIONS)) amount)"
proof -
  have "change_for (rev (sort DENOMINATIONS)) [] amount =
      Some ([] @ greedy (rev (sort DENOMINATIONS)) amount,
            fold (\<lambda>d r. r mod d) (rev (sort DENOMINATIONS)) amount)"
    using assms by (intro change_for_pos) (simp_all add: DENOMINATIONS_def)
  then show ?thesis using assms by (simp add: make_change_def)
qed

lemma make_change_total: "\<exists>change. make_change amount = Some change"
proof (cases "0 < amount")
  case True
  then show ?thesis by (simp add: make_change_greedy)
next
  case False
  then show ?thesis by (simp add: make_change_def)
qed

lemma sum_list_greedy:
  "\<forall>d\<in>set ds. 0 < d \<Longrightarrow> 0 \<le> r \<Longrightarrow>
   sum_list (greedy ds r) + fold (\<lambda>d r. r mod d) ds r = r"
proof (induction ds arbitrary: r)
  case Nil
  then show ?case by simp
next
  case (Cons d ds)
  have d: "0 < d" using Cons.prems by simp
  have ih: "sum_list (greedy ds (r mod d)) + fold (\<lambda>d r. r mod d) ds (r mod d) = r mod d"
    using Cons.prems d by (intro Cons.IH) simp_all
  have nn: "0 \<le> r div d" using d Cons.prems by (simp add: pos_imp_zdiv_nonneg_iff)
  have a: "sum_list (greedy (d # ds) r) = r div d * d + sum_list (greedy ds (r mod d))"
    using nn by (simp add: sum_list_replicate)
  have b: "fold (\<lambda>d r. r mod d) (d # ds) r = fold (\<lambda>d r. r mod d) ds (r mod d)"
    by simp
  have c: "r div d * d + r mod d = r" by simp
  show ?case unfolding a b using ih c by linarith
qed

lemma set_greedy: "set (greedy ds r) \<subseteq> set ds"
  by (induction ds arbitrary: r) auto

lemma length_greedy: "length (greedy ds r) = gcount ds r"
  by (induction ds arbitrary: r) auto

lemma fold_mod_one: "fold (\<lambda>d r. r mod d) (ds @ [1::int]) r = 0"
  by simp

lemma positive_denominations: "\<forall>d\<in>set (rev (sort DENOMINATIONS)). 0 < d"
  by (simp add: DENOMINATIONS_def)

lemma sum_list_make_change:
  assumes "0 < amount"
  shows "sum_list (greedy (rev (sort DENOMINATIONS)) amount) = amount"
proof -
  have "rev (sort DENOMINATIONS) = [2000, 500, 200, 100, 50, 20, 10, 5, 2] @ [1]"
    by (simp add: desc_denominations)
  then have f: "fold (\<lambda>d r. r mod d) (rev (sort DENOMINATIONS)) amount = 0"
    by (simp only: fold_mod_one)
  have "sum_list (greedy (rev (sort DENOMINATIONS)) amount)
        + fold (\<lambda>d r. r mod d) (rev (sort DENOMINATIONS)) amount = amount"
    using positive_denominations assms by (intro sum_list_greedy) simp_all
  then show ?thesis using f by linarith
qed

lemma set_desc_denominations: "set (rev (sort DENOMINATIONS)) = set DENOMINATIONS"
  by simp

subsection \<open>The greedy count is subadditive on the denomination system\<close>

lemma gcount_add_mult:
  assumes "0 < d" "0 \<le> s"
  shows "gcount (d # ds) (s + int k * d) = gcount (d # ds) s + k"
proof -
  have "0 \<le> s div d" using assms by (simp add: pos_imp_zdiv_nonneg_iff)
  then show ?thesis using assms by (simp add: nat_add_distrib)
qed

lemma gcount_small: "0 \<le> s \<Longrightarrow> s < d \<Longrightarrow> gcount (d # ds) s = gcount ds s"
  by (simp add: div_pos_pos_trivial mod_pos_pos_trivial)

lemma bump_mult:
  assumes "0 < e" "0 \<le> s" "0 < k" "D = int k * e"
  shows "gcount (e # R) s + 1 \<le> gcount (e # R) (s + D)"
  using gcount_add_mult [OF assms(1,2), of R k] assms(3,4) by simp

lemma bump_25_aux:
  assumes u: "0 < u" and s: "0 \<le> s" "s < 2 * u"
  shows "gcount (2 * u # u # R) s + 1 \<le> gcount (2 * u # u # R) (s + 5 * u)"
proof (cases "s < u")
  case True
  have "gcount (2 * u # u # R) (s + 5 * u) = gcount (2 * u # u # R) ((s + u) + int 2 * (2 * u))"
    by (simp add: algebra_simps)
  also have "\<dots> = gcount (2 * u # u # R) (s + u) + 2"
    using u s by (intro gcount_add_mult) auto
  also have "gcount (2 * u # u # R) (s + u) = gcount (u # R) (s + int 1 * u)"
    using True s by (simp add: gcount_small del: gcount.simps)
  also have "\<dots> = gcount (u # R) s + 1"
    using u s by (intro gcount_add_mult) auto
  also have "gcount (u # R) s = gcount (2 * u # u # R) s"
    using s by (simp add: gcount_small del: gcount.simps)
  finally show ?thesis by simp
next
  case False
  have "gcount (2 * u # u # R) (s + 5 * u) = gcount (2 * u # u # R) ((s - u) + int 3 * (2 * u))"
    by (simp add: algebra_simps)
  also have "\<dots> = gcount (2 * u # u # R) (s - u) + 3"
    using u False by (intro gcount_add_mult) auto
  also have "gcount (2 * u # u # R) (s - u) = gcount (u # R) (s - u)"
    using False s u by (simp add: gcount_small del: gcount.simps)
  finally have a: "gcount (2 * u # u # R) (s + 5 * u) = gcount (u # R) (s - u) + 3" .
  have "gcount (2 * u # u # R) s = gcount (u # R) ((s - u) + int 1 * u)"
    using s by (simp add: gcount_small del: gcount.simps)
  also have "\<dots> = gcount (u # R) (s - u) + 1"
    using u False by (intro gcount_add_mult) auto
  finally show ?thesis using a by simp
qed

lemma bump_25:
  assumes "0 < u" "0 \<le> s" "s < e" "e = 2 * u" "D = 5 * u"
  shows "gcount (e # u # R) s + 1 \<le> gcount (e # u # R) (s + D)"
  using bump_25_aux [of u s R] assms by simp

lemma subadditive_level:
  assumes D: "0 < D"
    and ds: "\<forall>x\<in>set ds. 0 < x \<and> x \<le> e"
    and e: "e \<le> D"
    and sub: "subadditive ds"
    and bump: "\<forall>s. 0 \<le> s \<and> s < e \<longrightarrow> gcount ds s + 1 \<le> gcount ds (s + D)"
  shows "subadditive (D # ds)"
  unfolding subadditive_def
proof (intro allI impI)
  fix n x :: int
  assume a: "0 \<le> n \<and> x \<in> set (D # ds)"
  define q where "q = n div D"
  define r where "r = n mod D"
  have r: "0 \<le> r" "r < D" using D by (simp_all add: r_def)
  have q: "0 \<le> q" using a D by (simp add: q_def pos_imp_zdiv_nonneg_iff)
  have n: "n = r + q * D" by (simp add: q_def r_def)
  have base: "gcount (D # ds) n = nat q + gcount ds r"
    by (simp add: q_def r_def)
  show "gcount (D # ds) (n + x) \<le> gcount (D # ds) n + 1"
  proof (cases "x = D")
    case True
    have "gcount (D # ds) (n + int 1 * D) = gcount (D # ds) n + 1"
      using D a by (intro gcount_add_mult) auto
    then show ?thesis using True by simp
  next
    case False
    then have x: "x \<in> set ds" "0 < x" "x \<le> e" using a ds by auto
    show ?thesis
    proof (cases "r + x < D")
      case True
      have eq: "n + x = (r + x) + q * D" using n by simp
      have "(n + x) div D = q" "(n + x) mod D = r + x"
        unfolding eq using True r x D by (simp_all add: div_pos_pos_trivial mod_pos_pos_trivial)
      then have "gcount (D # ds) (n + x) = nat q + gcount ds (r + x)" by simp
      moreover have "gcount ds (r + x) \<le> gcount ds r + 1"
        using sub r x unfolding subadditive_def by blast
      ultimately show ?thesis using base by simp
    next
      case False
      define s where "s = r + x - D"
      have s: "0 \<le> s" "s < x" "s < D" using False r x e by (simp_all add: s_def)
      have eq: "n + x = s + (q + 1) * D" using n by (simp add: s_def algebra_simps)
      have "(n + x) div D = q + 1" "(n + x) mod D = s"
        unfolding eq using s D by (simp_all add: div_pos_pos_trivial mod_pos_pos_trivial)
      then have g: "gcount (D # ds) (n + x) = nat (q + 1) + gcount ds s" by simp
      have "gcount ds (r + x) \<le> gcount ds r + 1"
        using sub r x unfolding subadditive_def by blast
      moreover have "r + x = s + D" by (simp add: s_def)
      moreover have "gcount ds s + 1 \<le> gcount ds (s + D)"
        using bump s x by auto
      ultimately have "gcount ds s \<le> gcount ds r" by simp
      then show ?thesis using g base q by (simp add: nat_add_distrib)
    qed
  qed
qed

lemma subadditive_Nil: "subadditive []"
  by (simp add: subadditive_def)

lemma sub1: "subadditive [1]"
  unfolding subadditive_def by (simp add: nat_add_distrib)

lemma sub2: "subadditive [2, 1]"
proof (rule subadditive_level [where e = 1])
  show "subadditive [1]" by (rule sub1)
  show "\<forall>s. 0 \<le> s \<and> s < 1 \<longrightarrow> gcount [1] s + 1 \<le> gcount [1] (s + 2)"
  proof (intro allI impI)
    fix s :: int
    assume "0 \<le> s \<and> s < 1"
    then show "gcount [1] s + 1 \<le> gcount [1] (s + 2)"
      by (intro bump_mult [where k = 2]) simp_all
  qed
qed simp_all

lemma sub5: "subadditive [5, 2, 1]"
proof (rule subadditive_level [where e = 2])
  show "subadditive [2, 1]" by (rule sub2)
  show "\<forall>s. 0 \<le> s \<and> s < 2 \<longrightarrow> gcount [2, 1] s + 1 \<le> gcount [2, 1] (s + 5)"
  proof (intro allI impI)
    fix s :: int
    assume "0 \<le> s \<and> s < 2"
    then show "gcount [2, 1] s + 1 \<le> gcount [2, 1] (s + 5)"
      by (intro bump_25 [where u = 1]) simp_all
  qed
qed simp_all

lemma sub10: "subadditive [10, 5, 2, 1]"
proof (rule subadditive_level [where e = 5])
  show "subadditive [5, 2, 1]" by (rule sub5)
  show "\<forall>s. 0 \<le> s \<and> s < 5 \<longrightarrow> gcount [5, 2, 1] s + 1 \<le> gcount [5, 2, 1] (s + 10)"
  proof (intro allI impI)
    fix s :: int
    assume "0 \<le> s \<and> s < 5"
    then show "gcount [5, 2, 1] s + 1 \<le> gcount [5, 2, 1] (s + 10)"
      by (intro bump_mult [where k = 2]) simp_all
  qed
qed simp_all

lemma sub20: "subadditive [20, 10, 5, 2, 1]"
proof (rule subadditive_level [where e = 10])
  show "subadditive [10, 5, 2, 1]" by (rule sub10)
  show "\<forall>s. 0 \<le> s \<and> s < 10 \<longrightarrow> gcount [10, 5, 2, 1] s + 1 \<le> gcount [10, 5, 2, 1] (s + 20)"
  proof (intro allI impI)
    fix s :: int
    assume "0 \<le> s \<and> s < 10"
    then show "gcount [10, 5, 2, 1] s + 1 \<le> gcount [10, 5, 2, 1] (s + 20)"
      by (intro bump_mult [where k = 2]) simp_all
  qed
qed simp_all

lemma sub50: "subadditive [50, 20, 10, 5, 2, 1]"
proof (rule subadditive_level [where e = 20])
  show "subadditive [20, 10, 5, 2, 1]" by (rule sub20)
  show "\<forall>s. 0 \<le> s \<and> s < 20 \<longrightarrow> gcount [20, 10, 5, 2, 1] s + 1 \<le> gcount [20, 10, 5, 2, 1] (s + 50)"
  proof (intro allI impI)
    fix s :: int
    assume "0 \<le> s \<and> s < 20"
    then show "gcount [20, 10, 5, 2, 1] s + 1 \<le> gcount [20, 10, 5, 2, 1] (s + 50)"
      by (intro bump_25 [where u = 10]) simp_all
  qed
qed simp_all

lemma sub100: "subadditive [100, 50, 20, 10, 5, 2, 1]"
proof (rule subadditive_level [where e = 50])
  show "subadditive [50, 20, 10, 5, 2, 1]" by (rule sub50)
  show "\<forall>s. 0 \<le> s \<and> s < 50 \<longrightarrow> gcount [50, 20, 10, 5, 2, 1] s + 1 \<le> gcount [50, 20, 10, 5, 2, 1] (s + 100)"
  proof (intro allI impI)
    fix s :: int
    assume "0 \<le> s \<and> s < 50"
    then show "gcount [50, 20, 10, 5, 2, 1] s + 1 \<le> gcount [50, 20, 10, 5, 2, 1] (s + 100)"
      by (intro bump_mult [where k = 2]) simp_all
  qed
qed simp_all

lemma sub200: "subadditive [200, 100, 50, 20, 10, 5, 2, 1]"
proof (rule subadditive_level [where e = 100])
  show "subadditive [100, 50, 20, 10, 5, 2, 1]" by (rule sub100)
  show "\<forall>s. 0 \<le> s \<and> s < 100 \<longrightarrow> gcount [100, 50, 20, 10, 5, 2, 1] s + 1 \<le> gcount [100, 50, 20, 10, 5, 2, 1] (s + 200)"
  proof (intro allI impI)
    fix s :: int
    assume "0 \<le> s \<and> s < 100"
    then show "gcount [100, 50, 20, 10, 5, 2, 1] s + 1 \<le> gcount [100, 50, 20, 10, 5, 2, 1] (s + 200)"
      by (intro bump_mult [where k = 2]) simp_all
  qed
qed simp_all

lemma sub500: "subadditive [500, 200, 100, 50, 20, 10, 5, 2, 1]"
proof (rule subadditive_level [where e = 200])
  show "subadditive [200, 100, 50, 20, 10, 5, 2, 1]" by (rule sub200)
  show "\<forall>s. 0 \<le> s \<and> s < 200 \<longrightarrow> gcount [200, 100, 50, 20, 10, 5, 2, 1] s + 1 \<le> gcount [200, 100, 50, 20, 10, 5, 2, 1] (s + 500)"
  proof (intro allI impI)
    fix s :: int
    assume "0 \<le> s \<and> s < 200"
    then show "gcount [200, 100, 50, 20, 10, 5, 2, 1] s + 1 \<le> gcount [200, 100, 50, 20, 10, 5, 2, 1] (s + 500)"
      by (intro bump_25 [where u = 100]) simp_all
  qed
qed simp_all

lemma sub2000: "subadditive [2000, 500, 200, 100, 50, 20, 10, 5, 2, 1]"
proof (rule subadditive_level [where e = 500])
  show "subadditive [500, 200, 100, 50, 20, 10, 5, 2, 1]" by (rule sub500)
  show "\<forall>s. 0 \<le> s \<and> s < 500 \<longrightarrow> gcount [500, 200, 100, 50, 20, 10, 5, 2, 1] s + 1 \<le> gcount [500, 200, 100, 50, 20, 10, 5, 2, 1] (s + 2000)"
  proof (intro allI impI)
    fix s :: int
    assume "0 \<le> s \<and> s < 500"
    then show "gcount [500, 200, 100, 50, 20, 10, 5, 2, 1] s + 1 \<le> gcount [500, 200, 100, 50, 20, 10, 5, 2, 1] (s + 2000)"
      by (intro bump_mult [where k = 4]) simp_all
  qed
qed simp_all

lemma gcount_le_length:
  assumes "subadditive ds" "\<forall>x\<in>set ds. 0 < x"
  shows "set xs \<subseteq> set ds \<Longrightarrow> gcount ds (sum_list xs) \<le> length xs"
proof (induction xs)
  case Nil
  have "gcount ds 0 = 0" by (induction ds) auto
  then show ?case by simp
next
  case (Cons x xs)
  have "0 < y" if "y \<in> set xs" for y using that Cons.prems assms(2) by auto
  then have "0 \<le> sum_list xs" by (intro sum_list_nonneg) (simp add: less_imp_le)
  then have "gcount ds (sum_list xs + x) \<le> gcount ds (sum_list xs) + 1"
    using assms(1) Cons.prems unfolding subadditive_def by auto
  then show ?case using Cons by (simp add: add.commute)
qed

subsection \<open>Greedy selection\<close>

lemma greedy_select_amount:
  "greedy_select ts amount sel tot = (sel', tot') \<Longrightarrow>
   tot' - tot = tokens_to_amount sel' - tokens_to_amount sel"
  by (induction ts amount sel tot rule: greedy_select.induct)
     (auto simp: tokens_to_amount_def split: if_splits)

lemma greedy_select_short:
  "snd (greedy_select ts amount sel tot) < amount \<Longrightarrow>
   greedy_select ts amount sel tot = (sel @ ts, tot + tokens_to_amount ts)"
  by (induction ts amount sel tot rule: greedy_select.induct)
     (auto simp: tokens_to_amount_def split: if_splits)

lemma tokens_to_amount_insort:
  "tokens_to_amount (insort_key f x xs) = denomination x + tokens_to_amount xs"
  by (induction xs) (auto simp: tokens_to_amount_def)

lemma tokens_to_amount_sort: "tokens_to_amount (sort_key f xs) = tokens_to_amount xs"
proof (induction xs)
  case Nil
  then show ?case by simp
next
  case (Cons x xs)
  then show ?case
    by (simp add: tokens_to_amount_insort) (simp add: tokens_to_amount_def)
qed

section \<open>Claims about the token utilities\<close>

text \<open>
  Claim C5 (change correctness). For every amount above zero \<open>make_change\<close> returns, every
  element of the returned list is a member of \<open>DENOMINATIONS\<close>, and the list sums exactly
  to the amount; for every amount of zero or below it returns the empty list.
\<close>

theorem make_change_correct:
  "(0 < amount \<longrightarrow>
      (\<exists>change. make_change amount = Some change \<and> set change \<subseteq> set DENOMINATIONS
                \<and> sum_list change = amount))
   \<and> (amount \<le> 0 \<longrightarrow> make_change amount = Some [])"
proof (intro conjI impI)
  assume pos: "0 < amount"
  have "set (greedy (rev (sort DENOMINATIONS)) amount) \<subseteq> set DENOMINATIONS"
    using set_greedy [of "rev (sort DENOMINATIONS)" amount] by simp
  then show "\<exists>change. make_change amount = Some change \<and> set change \<subseteq> set DENOMINATIONS
                \<and> sum_list change = amount"
    using pos by (simp add: make_change_greedy sum_list_make_change)
next
  assume "amount \<le> 0"
  then show "make_change amount = Some []" by (simp add: make_change_def)
qed

theorem make_change_correct_witness:
  "(0::int) < 388
   \<and> (\<exists>change. make_change 388 = Some change \<and> set change \<subseteq> set DENOMINATIONS
                \<and> sum_list change = 388)
   \<and> (-3::int) \<le> 0 \<and> make_change (-3) = Some []"
  using make_change_correct [of 388] make_change_correct [of "-3"] by simp

text \<open>
  Claim C6 (greedy optimality). For every positive amount, the list computed by
  \<open>make_change\<close> is a decomposition of the amount into denominations that is no longer
  than any other list of denominations with the same sum.
\<close>

theorem make_change_optimal:
  assumes "0 < amount" and "set xs \<subseteq> set DENOMINATIONS" and "sum_list xs = amount"
  shows "\<exists>change. make_change amount = Some change \<and> set change \<subseteq> set DENOMINATIONS
            \<and> sum_list change = amount \<and> length change \<le> length xs"
proof -
  let ?ds = "rev (sort DENOMINATIONS)"
  have sub: "subadditive ?ds" by (simp only: desc_denominations sub2000)
  have "set xs \<subseteq> set ?ds" using assms(2) by (simp only: set_desc_denominations)
  then have "gcount ?ds (sum_list xs) \<le> length xs"
    using positive_denominations by (intro gcount_le_length [OF sub])
  then have "length (greedy ?ds amount) \<le> length xs"
    using assms(3) by (simp add: length_greedy)
  moreover have "set (greedy ?ds amount) \<subseteq> set DENOMINATIONS"
    using set_greedy [of ?ds amount] by simp
  ultimately show ?thesis
    using assms(1) by (simp add: make_change_greedy sum_list_make_change)
qed

theorem make_change_optimal_witness:
  "(0::int) < 6 \<and> set [2, 2, 2] \<subseteq> set DENOMINATIONS \<and> sum_list [2, 2, 2] = (6::int)
   \<and> (\<exists>change. make_change 6 = Some change \<and> set change \<subseteq> set DENOMINATIONS
          \<and> sum_list change = 6 \<and> length change \<le> length [2, 2, 2 :: int])"
proof -
  have a: "set [2, 2, 2] \<subseteq> set DENOMINATIONS" by (simp add: DENOMINATIONS_def)
  have b: "sum_list [2, 2, 2] = (6::int)" by simp
  have c: "(0::int) < 6" by simp
  show ?thesis using make_change_optimal [OF c a b] a by simp
qed

text \<open>
  Claim C7 (selection soundness). For every list of available tokens and every requested
  amount, \<open>calculate_change\<close> and \<open>select_for_payment\<close> return, and the result is of one
  of two kinds: a selection whose denominations sum to at least the amount (with
  remaining 0, and for \<open>select_for_payment\<close> the overshoot as second component), or the
  insufficient-funds result: an empty selection together with the strictly positive
  shortfall, which is the amount minus the sum of all available denominations.
\<close>

theorem selection_sound:
  "(\<exists>sel ch rem. calculate_change amount toks = Some (sel, ch, rem)
      \<and> ((rem = 0 \<and> amount \<le> tokens_to_amount sel)
         \<or> (sel = [] \<and> ch = [] \<and> 0 < rem \<and> rem = amount - tokens_to_amount toks)))
   \<and> (\<exists>sel x. select_for_payment toks amount = Some (sel, x)
      \<and> ((amount \<le> tokens_to_amount sel \<and> x = tokens_to_amount sel - amount)
         \<or> (sel = [] \<and> 0 < x \<and> x = amount - tokens_to_amount toks)))"
proof -
  let ?st = "sort_key (\<lambda>t. - denomination t) toks"
  obtain sel tot where g: "greedy_select ?st amount [] 0 = (sel, tot)"
    by (cases "greedy_select ?st amount [] 0") auto
  have tot: "tot = tokens_to_amount sel"
    using greedy_select_amount [OF g] by (simp add: tokens_to_amount_def)
  show ?thesis
  proof (cases "tot < amount")
    case True
    then have "greedy_select ?st amount [] 0 = ([] @ ?st, 0 + tokens_to_amount ?st)"
      using g by (intro greedy_select_short) simp
    then have "tot = tokens_to_amount toks"
      using g by (simp add: tokens_to_amount_sort)
    then show ?thesis
      using True g by (simp add: calculate_change_def select_for_payment_def)
  next
    case False
    obtain ch where ch: "make_change (tot - amount) = Some ch"
      using make_change_total by blast
    show ?thesis
      using False g ch tot by (simp add: calculate_change_def select_for_payment_def)
  qed
qed

section \<open>Properties of the database operations\<close>

subsection \<open>The nullifier registry\<close>

lemma count_distinct_key:
  "distinct (map f xs) \<Longrightarrow> v \<in> set (map f xs) \<Longrightarrow> length (filter (\<lambda>x. f x = v) xs) = 1"
proof (induction xs)
  case Nil
  then show ?case by simp
next
  case (Cons x xs)
  show ?case
  proof (cases "f x = v")
    case True
    then have "v \<notin> set (map f xs)" using Cons.prems(1) by auto
    then have "filter (\<lambda>x. f x = v) xs = []" by (auto simp: filter_empty_conv)
    then show ?thesis using True by simp
  next
    case False
    then show ?thesis using Cons by auto
  qed
qed

text \<open>
  Claim C2 (no replay). On a registry whose values are pairwise different, \<open>consume\<close>
  answers \<open>Ok\<close> exactly when the value is absent; consuming the same value again in the
  resulting state answers \<open>AlreadySpent\<close> and leaves that state as it is; the resulting
  registry holds the value exactly once and its values are still pairwise different; and
  \<open>consume\<close> itself changes neither the tokens nor the ledger.
\<close>

theorem consume_no_replay:
  assumes "distinct (map nullifier (nullifiers w))"
  shows "\<exists>r1 w1. consume e w v s t = (r1, w1)
           \<and> (r1 = Ok) = (v \<notin> set (map nullifier (nullifiers w)))
           \<and> consume e w1 v s' t' = (AlreadySpent, w1)
           \<and> distinct (map nullifier (nullifiers w1))
           \<and> length (filter (\<lambda>n. nullifier n = v) (nullifiers w1)) = 1
           \<and> tokens w1 = tokens w \<and> ledger w1 = ledger w"
proof (cases "v \<in> set (map nullifier (nullifiers w))")
  case True
  then show ?thesis
    using assms count_distinct_key [OF assms True] by (simp add: consume_def)
next
  case False
  then have "filter (\<lambda>n. nullifier n = v) (nullifiers w) = []"
    by (auto simp: filter_empty_conv)
  then show ?thesis
    using assms False by (simp add: consume_def next_tick_def Let_def)
qed

theorem consume_no_replay_witness:
  "distinct (map nullifier (nullifiers init_db))
   \<and> (\<exists>r1 w1. consume env0 init_db ''n1'' ''100-AAAA'' ''tx1'' = (r1, w1)
           \<and> (r1 = Ok) = (''n1'' \<notin> set (map nullifier (nullifiers init_db)))
           \<and> consume env0 w1 ''n1'' ''100-AAAA'' ''tx2'' = (AlreadySpent, w1)
           \<and> distinct (map nullifier (nullifiers w1))
           \<and> length (filter (\<lambda>n. nullifier n = ''n1'') (nullifiers w1)) = 1
           \<and> tokens w1 = tokens init_db \<and> ledger w1 = ledger init_db)"
proof -
  have h: "distinct (map nullifier (nullifiers init_db))" by (simp add: init_db_def)
  show ?thesis
    using h consume_no_replay [OF h, of env0 "''n1''" "''100-AAAA''" "''tx1''" "''100-AAAA''" "''tx2''"]
    by blast
qed

subsection \<open>Transfers\<close>

lemma find_None_iff_all: "find p xs = None \<longleftrightarrow> (\<forall>x\<in>set xs. \<not> p x)"
  by (induction xs) auto

lemma transfer_loop_fails:
  assumes "s \<in> set serials"
    and "\<forall>r\<in>set rows. serial_number r = s \<longrightarrow> current_owner r \<noteq> Some from_fi"
  shows "\<exists>s'. s' \<in> set serials \<and> transfer_loop from_fi to_fi ts serials rows tot = Inl s'"
  using assms
proof (induction serials arbitrary: rows tot)
  case Nil
  then show ?case by simp
next
  case (Cons x xs)
  show ?case
  proof (cases "find (\<lambda>r. serial_number r = x \<and> current_owner r = Some from_fi) rows")
    case None
    then show ?thesis by simp
  next
    case (Some token)
    then have "token \<in> set rows" "serial_number token = x" "current_owner token = Some from_fi"
      by (auto simp: find_Some_iff)
    then have xs: "x \<noteq> s" using Cons.prems(2) by auto
    then have mem: "s \<in> set xs" using Cons.prems(1) by simp
    have keep: "\<forall>r\<in>set (transfer_row to_fi ts x rows).
        serial_number r = s \<longrightarrow> current_owner r \<noteq> Some from_fi"
      using Cons.prems(2) xs by (auto simp: transfer_row_def)
    obtain s' where "s' \<in> set xs"
      "transfer_loop from_fi to_fi ts xs (transfer_row to_fi ts x rows)
         (tot + denomination token) = Inl s'"
      using Cons.IH [OF mem keep] by blast
    then show ?thesis using Some by auto
  qed
qed

text \<open>
  Claim C3 (atomic transfer). If one of the serials named in a transfer has no row owned
  by the claimed sender, \<open>transfer_tokens_between_fis\<close> returns the
  not-owned error for one of the named serials, and the state it leaves differs from the
  state before the call in nothing but the count of readings: every token has its owner
  and its time of last transfer as before, and the ledger has no new entry.
\<close>

theorem transfer_atomic:
  assumes "s \<in> set serials"
    and "find (\<lambda>r. serial_number r = s \<and> current_owner r = Some from_fi) (tokens w) = None"
  shows "\<exists>s' w'. transfer_tokens_between_fis e w from_fi to_fi serials
                     = (Inl (TokenNotOwned s' from_fi), w')
           \<and> s' \<in> set serials
           \<and> w' = w\<lparr>tick := tick w'\<rparr>
           \<and> map current_owner (tokens w') = map current_owner (tokens w)
           \<and> map last_transfer_at (tokens w') = map last_transfer_at (tokens w)
           \<and> ledger w' = ledger w"
proof -
  have "\<forall>r\<in>set (tokens (next_tick w)). serial_number r = s \<longrightarrow> current_owner r \<noteq> Some from_fi"
    using assms(2) by (auto simp: find_None_iff_all next_tick_def)
  then obtain s' where s': "s' \<in> set serials"
    "transfer_loop from_fi to_fi (clock_ms e (tick w)) serials (tokens (next_tick w)) 0 = Inl s'"
    using transfer_loop_fails [OF assms(1)] by blast
  show ?thesis
    using s' by (simp add: transfer_tokens_between_fis_def Let_def rollback_def)
qed

theorem transfer_atomic_witness:
  "''100-BBBB'' \<in> set [''100-AAAA'', ''100-BBBB'']
   \<and> find (\<lambda>r. serial_number r = ''100-BBBB'' \<and> current_owner r = Some ''FI-A'')
        (tokens two_token_world) = None
   \<and> (\<exists>s' w'. transfer_tokens_between_fis env0 two_token_world ''FI-A'' ''FI-C''
                   [''100-AAAA'', ''100-BBBB''] = (Inl (TokenNotOwned s' ''FI-A''), w')
           \<and> s' \<in> set [''100-AAAA'', ''100-BBBB'']
           \<and> w' = two_token_world\<lparr>tick := tick w'\<rparr>
           \<and> map current_owner (tokens w') = map current_owner (tokens two_token_world)
           \<and> map last_transfer_at (tokens w') = map last_transfer_at (tokens two_token_world)
           \<and> ledger w' = ledger two_token_world)"
proof -
  have h1: "''100-BBBB'' \<in> set [''100-AAAA'', ''100-BBBB'']" by simp
  have h2: "find (\<lambda>r. serial_number r = ''100-BBBB'' \<and> current_owner r = Some ''FI-A'')
        (tokens two_token_world) = None"
    by (simp add: two_token_world_def)
  show ?thesis
    using h1 h2 transfer_atomic [OF h1 h2, of env0 "''FI-C''"] by blast
qed

subsection \<open>Minting\<close>

lemma make_change_sum:
  "0 < amount \<Longrightarrow> \<exists>ds. make_change amount = Some ds \<and> sum_list ds = amount \<and> ds \<noteq> []"
  using sum_list_make_change [of amount] by (auto simp: make_change_greedy)

text \<open>
  Claim C10 (the exact-amount guard is unreachable). \<open>mint_mixed_tokens\<close> returns for
  every amount; it never returns the cannot-create-exact-amount error; and it returns an
  error of its own exactly when the amount is zero or below. The only other outcome that
  is not a success is the exception of an insert that repeats a primary key.
\<close>

theorem mint_mixed_guard_unreachable:
  "\<exists>out. mint_mixed_tokens e w amount purpose = Some out
      \<and> (\<forall>a. fst out \<noteq> Inl (CannotCreateExactAmount a))
      \<and> ((\<exists>err. fst out = Inl err \<and> \<not> raised err) = (amount \<le> 0))
      \<and> (\<forall>err. fst out = Inl err \<and> raised err \<longrightarrow> err = IntegrityError)"
proof (cases "amount \<le> 0")
  case True
  then show ?thesis by (simp add: mint_mixed_tokens_def)
next
  case False
  then obtain ds where ds: "make_change amount = Some ds" "sum_list ds = amount"
    using make_change_sum [of amount] by auto
  show ?thesis
    using False ds
    by (auto simp: mint_mixed_tokens_def record_mint_def Let_def
             split: sum.splits option.splits prod.splits)
qed

theorem mint_mixed_guard_unreachable_witness:
  "mint_mixed_tokens env0 init_db 388 (Text ''x'') \<noteq> None
   \<and> map_option (\<lambda>out. case fst out of Inl err \<Rightarrow> [] | Inr r \<Rightarrow> map denomination (mr_tokens r))
        (mint_mixed_tokens env0 init_db 388 (Text ''x''))
      = Some [200, 100, 50, 20, 10, 5, 2, 1]
   \<and> map_option fst (mint_mixed_tokens env0 init_db 0 (Text ''x'')) = Some (Inl AmountNotPositive)"
proof -
  have a: "map_option (\<lambda>out. case fst out of Inl err \<Rightarrow> [] | Inr r \<Rightarrow> map denomination (mr_tokens r))
        (mint_mixed_tokens env0 init_db 388 (Text ''x''))
      = Some [200, 100, 50, 20, 10, 5, 2, 1]"
    by code_simp
  have b: "map_option fst (mint_mixed_tokens env0 init_db 0 (Text ''x'')) = Some (Inl AmountNotPositive)"
    by code_simp
  show ?thesis
    using a b mint_mixed_guard_unreachable [of env0 init_db 388 "Text ''x''"] by auto
qed

subsection \<open>The effect of a mint\<close>

lemma appended_same:
  "tokens w' = tokens w \<Longrightarrow> ledger w' = ledger w
   \<Longrightarrow> financial_institutions w' = financial_institutions w
   \<Longrightarrow> nullifiers w' = nullifiers w \<Longrightarrow> appended w w' []"
  by (simp add: appended_def)

lemma appended_trans:
  assumes "appended w w1 n1" and "appended w1 w2 n2"
  shows "appended w w2 (n1 @ n2)"
proof -
  have d: "set (map serial_number n2) \<inter> set (map serial_number (tokens w @ n1)) = {}"
    using assms by (simp add: appended_def)
  then have "set (map serial_number n1) \<inter> set (map serial_number n2) = {}"
    and "set (map serial_number n2) \<inter> set (map serial_number (tokens w)) = {}"
    by auto
  then show ?thesis using assms by (auto simp: appended_def)
qed

lemma appended_next_tick: "appended w (next_tick w) []"
  by (simp add: appended_def next_tick_def)

lemma insert_batch_appended: "insert_batch row w = Some w' \<Longrightarrow> appended w w' []"
  by (auto simp: insert_batch_def appended_def split: if_splits)

lemma insert_tokens_effect:
  "insert_tokens e b ts ds w toks = Inr (w', toks') \<Longrightarrow>
   \<exists>new. appended w w' new \<and> map denomination new = ds \<and> toks' = toks @ map row_dict new"
proof (induction ds arbitrary: w toks)
  case Nil
  then have "appended w w' []" by (simp add: appended_def)
  then show ?case using Nil by auto
next
  case (Cons d ds)
  define serial where "serial = serial_text e (tick w) ''RBI'' d b"
  define row where "row = \<lparr>serial_number = serial, denomination = d, status = Some ''active'',
      current_owner = Some ''CB'', owner_type = Some ''cb'', minted_at = ts,
      batch_id = Some b, token_nullifier = None, last_transfer_at = None\<rparr>"
  define w2 where "w2 = (next_tick w)\<lparr>tokens := tokens w @ [row]\<rparr>"
  have fresh: "serial \<notin> set (map serial_number (tokens w))"
    and rec: "insert_tokens e b ts ds w2 (toks @ [\<lparr>serial_number = serial, denomination = d\<rparr>])
              = Inr (w', toks')"
    using Cons.prems
    by (auto simp: Let_def insert_token_def next_tick_def serial_def row_def w2_def
             split: option.splits if_splits)
  obtain new where new: "appended w2 w' new" "map denomination new = ds"
    "toks' = (toks @ [\<lparr>serial_number = serial, denomination = d\<rparr>]) @ map row_dict new"
    using Cons.IH [OF rec] by blast
  have r: "denomination row = d" "row_dict row = \<lparr>serial_number = serial, denomination = d\<rparr>"
    by (simp_all add: row_def row_dict_def)
  have "appended w w2 [row]"
    using fresh by (simp add: appended_def w2_def next_tick_def row_def vault_row_def)
  then have "appended w w' ([row] @ new)" using new(1) by (rule appended_trans)
  then show ?case using new(2,3) r by (intro exI [of _ "row # new"]) simp
qed

lemma record_mint_effect:
  assumes "record_mint e w0 w b toks n descr ts = (out, w')"
  shows "(\<exists>err. out = Inl err \<and> w' = w0\<lparr>tick := tick w'\<rparr>)
       \<or> (out = Inr \<lparr>mr_batch_id = b, mr_total_value = n, mr_tokens = toks\<rparr>
          \<and> tokens w' = tokens w \<and> financial_institutions w' = financial_institutions w
          \<and> nullifiers w' = nullifiers w
          \<and> (\<exists>entry. ledger w' = ledger w @ [entry] \<and> transaction_type entry = ''mint''
                \<and> total_amount entry = n))"
  using assms
  by (auto simp: record_mint_def Let_def insert_ledger_def next_tick_def rollback_def
           split: option.splits if_splits)

lemma record_mint_outcome:
  assumes "appended w w3 new" and "sum_list (map denomination new) = n"
  shows "mint_outcome w (record_mint e w w3 b (map row_dict new) n descr ts)
       \<and> (\<forall>r. fst (record_mint e w w3 b (map row_dict new) n descr ts) = Inr r
              \<longrightarrow> mr_total_value r = n)"
proof -
  obtain out w' where rm: "record_mint e w w3 b (map row_dict new) n descr ts = (out, w')"
    by (cases "record_mint e w w3 b (map row_dict new) n descr ts")
  from record_mint_effect [OF rm] show ?thesis
  proof
    assume "\<exists>err. out = Inl err \<and> w' = w\<lparr>tick := tick w'\<rparr>"
    then show ?thesis using rm by (auto simp: mint_outcome_def)
  next
    assume ok: "out = Inr \<lparr>mr_batch_id = b, mr_total_value = n, mr_tokens = map row_dict new\<rparr>
      \<and> tokens w' = tokens w3 \<and> financial_institutions w' = financial_institutions w3
      \<and> nullifiers w' = nullifiers w3
      \<and> (\<exists>entry. ledger w' = ledger w3 @ [entry] \<and> transaction_type entry = ''mint''
            \<and> total_amount entry = n)"
    then obtain entry where entry: "ledger w' = ledger w3 @ [entry]"
      "transaction_type entry = ''mint''" "total_amount entry = n" by blast
    have "minted_step w w' n (map row_dict new)"
      unfolding minted_step_def
      apply (intro exI [of _ new] exI [of _ entry])
      using assms ok entry by (simp add: appended_def)
    then show ?thesis using rm ok by (simp add: mint_outcome_def)
  qed
qed

lemma mint_mixed_outcome:
  "\<exists>out. mint_mixed_tokens e w amount purpose = Some out \<and> mint_outcome w out
     \<and> (\<forall>r. fst out = Inr r \<longrightarrow> 0 < amount \<and> mr_total_value r = amount)"
proof (cases "amount \<le> 0")
  case True
  then show ?thesis by (simp add: mint_mixed_tokens_def mint_outcome_def)
next
  case False
  then obtain ds where ds: "make_change amount = Some ds" "sum_list ds = amount"
    using make_change_sum [of amount] by auto
  define b where "b = ''BATCH-'' @ token_hex e (tick w)"
  define ts where "ts = clock_ms e (tick w)"
  show ?thesis
  proof (cases "insert_tokens e b ts ds (next_tick w) []")
    case (Inl wx)
    then show ?thesis
      using False ds
      by (simp add: mint_mixed_tokens_def mint_outcome_def Let_def rollback_def b_def ts_def)
  next
    case (Inr p)
    obtain w2 toks where p: "p = (w2, toks)" by (cases p)
    obtain new where new: "appended (next_tick w) w2 new" "map denomination new = ds"
      "toks = [] @ map row_dict new"
      using insert_tokens_effect [OF Inr [unfolded p]] by blast
    have a2: "appended w w2 new"
      using appended_trans [OF appended_next_tick new(1)] by simp
    define brow where "brow = \<lparr>tb_batch_id = Batch b, tb_denomination = 0,
        tb_count = int (length toks), tb_minted_at = ts, tb_purpose = Some (Mixed purpose)\<rparr>"
    show ?thesis
    proof (cases "insert_batch brow w2")
      case None
      then show ?thesis
        using False ds Inr p
        by (simp add: mint_mixed_tokens_def mint_outcome_def Let_def rollback_def b_def ts_def
            brow_def)
    next
      case (Some w3)
      have a3: "appended w w3 new"
        using appended_trans [OF a2 insert_batch_appended [OF Some]] by simp
      have eq: "mint_mixed_tokens e w amount purpose
            = Some (record_mint e w w3 b (map row_dict new) amount purpose ts)"
        using False ds Inr p Some new(3)
        by (simp add: mint_mixed_tokens_def Let_def b_def ts_def brow_def)
      have "sum_list (map denomination new) = amount" using new(2) ds(2) by simp
      from record_mint_outcome [OF a3 this, of e b purpose ts] show ?thesis
        using eq False by auto
    qed
  qed
qed

lemma mint_tokens_outcome: "mint_outcome w (mint_tokens e w denom count purpose)"
proof (cases "denom \<notin> set DENOMINATIONS \<or> count \<le> 0 \<or> count > 10000")
  case True
  then show ?thesis by (auto simp: mint_tokens_def mint_outcome_def)
next
  case False
  define b where "b = ''BATCH-'' @ token_hex e (tick w)"
  define ts where "ts = clock_ms e (tick w)"
  show ?thesis
  proof (cases "insert_tokens e b ts (replicate (nat count) denom) (next_tick w) []")
    case (Inl wx)
    then show ?thesis
      using False
      by (simp add: mint_tokens_def mint_outcome_def Let_def rollback_def b_def ts_def)
  next
    case (Inr p)
    obtain w2 toks where p: "p = (w2, toks)" by (cases p)
    obtain new where new: "appended (next_tick w) w2 new"
      "map denomination new = replicate (nat count) denom" "toks = [] @ map row_dict new"
      using insert_tokens_effect [OF Inr [unfolded p]] by blast
    have a2: "appended w w2 new"
      using appended_trans [OF appended_next_tick new(1)] by simp
    define brow where "brow = \<lparr>tb_batch_id = Batch b, tb_denomination = denom,
        tb_count = count, tb_minted_at = ts, tb_purpose = Some purpose\<rparr>"
    show ?thesis
    proof (cases "insert_batch brow w2")
      case None
      then show ?thesis
        using False Inr p
        by (simp add: mint_tokens_def mint_outcome_def Let_def rollback_def b_def ts_def
            brow_def)
    next
      case (Some w3)
      have a3: "appended w w3 new"
        using appended_trans [OF a2 insert_batch_appended [OF Some]] by simp
      have eq: "mint_tokens e w denom count purpose
            = record_mint e w w3 b (map row_dict new) (denom * count) (Minted count denom) ts"
        using False Inr p Some new(3)
        by (simp add: mint_tokens_def Let_def b_def ts_def brow_def)
      have "sum_list (map denomination new) = denom * count"
        using new(2) False by (simp add: sum_list_replicate)
      from record_mint_outcome [OF a3 this, of e b "Minted count denom" ts] show ?thesis
        using eq by simp
    qed
  qed
qed

lemma mint_each_effect:
  "mint_each e b ts purpose items w toks bd tv = Inr (w', toks', bd', tv') \<Longrightarrow>
   \<exists>new. appended w w' new \<and> sum_list (map denomination new) = tv' - tv
     \<and> toks' = toks @ map row_dict new"
proof (induction items arbitrary: w toks bd tv)
  case Nil
  then have "appended w w' []" by (simp add: appended_def)
  then show ?case using Nil by auto
next
  case (Cons item items)
  obtain denom count where item: "item = (denom, count)" by (cases item)
  show ?case
  proof (cases "count \<le> 0")
    case True
    then show ?thesis using Cons item by simp
  next
    case False
    obtain w1 toks1 where it: "insert_tokens e b ts (replicate (nat count) denom) w toks
        = Inr (w1, toks1)"
      using Cons.prems item False by (auto split: sum.splits)
    obtain w2 where ib: "insert_batch \<lparr>tb_batch_id = BatchDenom b denom, tb_denomination = denom,
        tb_count = count, tb_minted_at = ts, tb_purpose = Some purpose\<rparr> w1 = Some w2"
      using Cons.prems item False it by (auto split: option.splits)
    have rec: "mint_each e b ts purpose items w2 toks1 (bd @ [(denom, count)])
        (tv + denom * count) = Inr (w', toks', bd', tv')"
      using Cons.prems item False it ib by simp
    obtain n1 where n1: "appended w w1 n1" "map denomination n1 = replicate (nat count) denom"
      "toks1 = toks @ map row_dict n1"
      using insert_tokens_effect [OF it] by blast
    obtain n2 where n2: "appended w2 w' n2"
      "sum_list (map denomination n2) = tv' - (tv + denom * count)"
      "toks' = toks1 @ map row_dict n2"
      using Cons.IH [OF rec] by blast
    have "appended w w2 n1"
      using appended_trans [OF n1(1) insert_batch_appended [OF ib]] by simp
    then have a: "appended w w' (n1 @ n2)" using n2(1) by (rule appended_trans)
    have "sum_list (map denomination n1) = denom * count"
      using n1(2) False by (simp add: sum_list_replicate)
    then have "sum_list (map denomination (n1 @ n2)) = tv' - tv" using n2(2) by simp
    then show ?thesis using a n1(3) n2(3) by (intro exI [of _ "n1 @ n2"]) simp
  qed
qed

lemma mint_specific_outcome:
  "mint_outcome w (mint_specific_denominations e w denomination_counts purpose)"
proof (cases "validate_counts denomination_counts")
  case (Some err)
  then show ?thesis by (simp add: mint_specific_denominations_def mint_outcome_def)
next
  case None
  define b where "b = ''BATCH-'' @ token_hex e (tick w)"
  define ts where "ts = clock_ms e (tick w)"
  show ?thesis
  proof (cases "mint_each e b ts purpose denomination_counts (next_tick w) [] [] 0")
    case (Inl wx)
    then show ?thesis
      using None
      by (simp add: mint_specific_denominations_def mint_outcome_def Let_def rollback_def
          b_def ts_def)
  next
    case (Inr p)
    obtain w2 toks bd tv where p: "p = (w2, toks, bd, tv)" by (cases p)
    obtain new where new: "appended (next_tick w) w2 new"
      "sum_list (map denomination new) = tv - 0" "toks = [] @ map row_dict new"
      using mint_each_effect [OF Inr [unfolded p]] by blast
    have a2: "appended w w2 new"
      using appended_trans [OF appended_next_tick new(1)] by simp
    have eq: "mint_specific_denominations e w denomination_counts purpose
          = record_mint e w w2 b (map row_dict new) tv (MintedBreakdown bd) ts"
      using None Inr p new(3)
      by (simp add: mint_specific_denominations_def Let_def b_def ts_def)
    have "sum_list (map denomination new) = tv" using new(2) by simp
    from record_mint_outcome [OF a2 this, of e b "MintedBreakdown bd" ts] show ?thesis
      using eq by simp
  qed
qed

subsection \<open>The vault and the two passes of an allocation\<close>

lemma tokens_to_amount_row_dict: "tokens_to_amount (map row_dict rows) = tokens_to_amount rows"
  by (induction rows) (simp_all add: tokens_to_amount_def row_dict_def)

lemma vault_total_eq:
  "vault_total w = tokens_to_amount
     (filter (\<lambda>r. current_owner r = Some ''CB'' \<and> status r = Some ''active'') (tokens w))"
  by (simp add: vault_total_def cb_vault_def tokens_to_amount_row_dict tokens_to_amount_sort)

lemma filter_vault_rows:
  "list_all vault_row new \<Longrightarrow>
   filter (\<lambda>r. current_owner r = Some ''CB'' \<and> status r = Some ''active'') new = new"
  by (induction new) (simp_all add: vault_row_def)

lemma vault_after_mint:
  assumes "minted_step w w' n toks"
  shows "vault_total w' = vault_total w + n"
proof -
  obtain new where new: "tokens w' = tokens w @ new" "list_all vault_row new"
    "sum_list (map denomination new) = n"
    using assms unfolding minted_step_def by blast
  show ?thesis
    using new by (simp add: vault_total_eq filter_vault_rows tokens_to_amount_def)
qed

lemma first_pass_short:
  assumes "first_pass_total w amount < amount"
  shows "first_pass_total w amount = vault_total w"
proof -
  have "greedy_select (cb_vault w) amount [] 0 = ([] @ cb_vault w, 0 + tokens_to_amount (cb_vault w))"
    using assms unfolding first_pass_total_def by (rule greedy_select_short)
  then show ?thesis by (simp add: first_pass_total_def vault_total_def)
qed

lemma first_pass_selected:
  "tokens_to_amount (fst (greedy_select (cb_vault w) amount [] 0)) = first_pass_total w amount"
proof -
  obtain sel tot where g: "greedy_select (cb_vault w) amount [] 0 = (sel, tot)"
    by (cases "greedy_select (cb_vault w) amount [] 0")
  from greedy_select_amount [OF g] show ?thesis
    using g by (simp add: first_pass_total_def tokens_to_amount_def)
qed

lemma exact_select_amount:
  "exact_select ts amount sel tot = (sel', tot') \<Longrightarrow>
   tot' - tot = tokens_to_amount sel' - tokens_to_amount sel \<and> (tot \<le> amount \<longrightarrow> tot' \<le> amount)"
  by (induction ts amount sel tot rule: exact_select.induct)
     (auto simp: tokens_to_amount_def split: if_splits)

lemma exact_pass_selected:
  "tokens_to_amount (fst (exact_select (sort_key denomination (cb_vault w)) amount [] 0))
     = exact_pass_total w amount
   \<and> (0 \<le> amount \<longrightarrow> exact_pass_total w amount \<le> amount)"
proof -
  obtain sel tot where g: "exact_select (sort_key denomination (cb_vault w)) amount [] 0 = (sel, tot)"
    by (cases "exact_select (sort_key denomination (cb_vault w)) amount [] 0")
  from exact_select_amount [OF g] show ?thesis
    using g by (auto simp: exact_pass_total_def tokens_to_amount_def)
qed

subsection \<open>The three ways through an allocation\<close>

lemma allocate_not_found:
  "find (\<lambda>f. fi_id f = fid) (financial_institutions w) = None \<Longrightarrow>
   allocate_tokens_to_fi e w fid amount = Some (Inl FINotFound, w)"
  by (subst allocate_tokens_to_fi.simps) simp

lemma allocate_retry:
  assumes "find (\<lambda>f. fi_id f = fid) (financial_institutions w) = Some fi"
    and "first_pass_total w amount < amount"
  shows "allocate_tokens_to_fi e w fid amount =
     (case mint_mixed_tokens e w (amount - first_pass_total w amount) (AdditionalFor fid) of
        None \<Rightarrow> None
      | Some (Inl err, w1) \<Rightarrow> Some (Inl err, w1)
      | Some (Inr r, w1) \<Rightarrow> allocate_tokens_to_fi e w1 fid amount)"
proof -
  obtain sel tot where g: "greedy_select (cb_vault w) amount [] 0 = (sel, tot)"
    by (cases "greedy_select (cb_vault w) amount [] 0")
  have t: "first_pass_total w amount = tot" using g by (simp add: first_pass_total_def)
  show ?thesis
    using assms unfolding t by (subst allocate_tokens_to_fi.simps) (simp add: g)
qed

lemma allocate_direct:
  assumes "find (\<lambda>f. fi_id f = fid) (financial_institutions w) = Some fi"
    and "\<not> first_pass_total w amount < amount"
  shows "allocate_tokens_to_fi e w fid amount =
     (if amount < first_pass_total w amount then
        if exact_pass_total w amount < amount then
          (case mint_mixed_tokens e w amount (AllocationFor fid) of
             None \<Rightarrow> None
           | Some (Inl err, w1) \<Rightarrow> Some (Inl err, w1)
           | Some (Inr r, w1) \<Rightarrow> Some (Inl ProgrammingError, next_tick w1))
        else Some (commit_allocation e w fid fi
                     (fst (exact_select (sort_key denomination (cb_vault w)) amount [] 0))
                     (exact_pass_total w amount))
      else Some (commit_allocation e w fid fi (fst (greedy_select (cb_vault w) amount [] 0))
                   (first_pass_total w amount)))"
proof -
  obtain sel tot where g: "greedy_select (cb_vault w) amount [] 0 = (sel, tot)"
    by (cases "greedy_select (cb_vault w) amount [] 0")
  obtain sel' tot' where x: "exact_select (sort_key denomination (cb_vault w)) amount [] 0
      = (sel', tot')"
    by (cases "exact_select (sort_key denomination (cb_vault w)) amount [] 0")
  have t: "first_pass_total w amount = tot" "exact_pass_total w amount = tot'"
    "fst (greedy_select (cb_vault w) amount [] 0) = sel"
    "fst (exact_select (sort_key denomination (cb_vault w)) amount [] 0) = sel'"
    using g x by (simp_all add: first_pass_total_def exact_pass_total_def)
  show ?thesis
    using assms unfolding t by (subst allocate_tokens_to_fi.simps) (simp add: g x)
qed

lemma allocate_direct_returns:
  assumes "find (\<lambda>f. fi_id f = fid) (financial_institutions w) = Some fi"
    and "\<not> first_pass_total w amount < amount"
  shows "\<exists>out. allocate_tokens_to_fi e w fid amount = Some out"
proof -
  obtain out where "mint_mixed_tokens e w amount (AllocationFor fid) = Some out"
    using mint_mixed_outcome by blast
  then show ?thesis
    unfolding allocate_direct [OF assms]
    by (cases out; cases "fst out") auto
qed

lemma retry_state_facts:
  assumes "retry_state e w fid amount = Some w1"
  shows "\<exists>fi r. find (\<lambda>f. fi_id f = fid) (financial_institutions w) = Some fi
     \<and> first_pass_total w amount < amount
     \<and> mint_mixed_tokens e w (amount - first_pass_total w amount) (AdditionalFor fid)
         = Some (Inr r, w1)
     \<and> find (\<lambda>f. fi_id f = fid) (financial_institutions w1) = Some fi
     \<and> \<not> first_pass_total w1 amount < amount"
proof -
  have reg: "registered w fid" and short: "first_pass_total w amount < amount"
    using assms by (auto simp: retry_state_def split: if_splits)
  obtain fi where fi: "find (\<lambda>f. fi_id f = fid) (financial_institutions w) = Some fi"
    using reg by (auto simp: registered_def)
  obtain r where r: "mint_mixed_tokens e w (amount - first_pass_total w amount) (AdditionalFor fid)
      = Some (Inr r, w1)"
    using assms reg short
    by (auto simp: retry_state_def split: option.splits sum.splits prod.splits)
  obtain out where out: "mint_mixed_tokens e w (amount - first_pass_total w amount)
      (AdditionalFor fid) = Some out" "mint_outcome w out"
    "\<forall>r. fst out = Inr r \<longrightarrow> mr_total_value r = amount - first_pass_total w amount"
    using mint_mixed_outcome [of e w "amount - first_pass_total w amount" "AdditionalFor fid"]
    by blast
  have step: "minted_step w w1 (amount - first_pass_total w amount) (mr_tokens r)"
    using out r by (auto simp: mint_outcome_def)
  then have fis: "financial_institutions w1 = financial_institutions w"
    by (auto simp: minted_step_def)
  have "vault_total w1 = amount"
    using vault_after_mint [OF step] first_pass_short [OF short] by simp
  then have "\<not> first_pass_total w1 amount < amount"
    using first_pass_short [of w1 amount] by auto
  then show ?thesis using fi short r fis by auto
qed

section \<open>Claims about allocation\<close>

text \<open>
  Claim C9 (allocation terminates). \<open>allocate_tokens_to_fi\<close> returns for every state,
  institution and amount. If a call reaches its recursive call, in the state \<open>w1\<close> left
  by the mint of the difference, then what it returns is what the call in \<open>w1\<close> returns,
  and the call in \<open>w1\<close> does not reach a recursive call of its own: the function calls
  itself at most once.
\<close>

theorem allocate_terminates:
  "(\<exists>out. allocate_tokens_to_fi e w fid amount = Some out)
   \<and> (case retry_state e w fid amount of
        None \<Rightarrow> True
      | Some w1 \<Rightarrow>
          allocate_tokens_to_fi e w fid amount = allocate_tokens_to_fi e w1 fid amount
          \<and> retry_state e w1 fid amount = None)"
proof (cases "retry_state e w fid amount")
  case None
  have "\<exists>out. allocate_tokens_to_fi e w fid amount = Some out"
  proof (cases "find (\<lambda>f. fi_id f = fid) (financial_institutions w)")
    case None
    then show ?thesis by (simp add: allocate_not_found)
  next
    case (Some fi)
    show ?thesis
    proof (cases "first_pass_total w amount < amount")
      case False
      then show ?thesis using Some by (rule allocate_direct_returns [rotated])
    next
      case True
      obtain out where out: "mint_mixed_tokens e w (amount - first_pass_total w amount)
          (AdditionalFor fid) = Some out"
        using mint_mixed_outcome by blast
      have "\<exists>err. fst out = Inl err"
        using None Some True out
        by (cases out; cases "fst out") (auto simp: retry_state_def registered_def)
      then show ?thesis
        unfolding allocate_retry [OF Some True] using out by (cases out) auto
    qed
  qed
  then show ?thesis using None by simp
next
  case (Some w1)
  obtain fi r where f: "find (\<lambda>f. fi_id f = fid) (financial_institutions w) = Some fi"
    "first_pass_total w amount < amount"
    "mint_mixed_tokens e w (amount - first_pass_total w amount) (AdditionalFor fid)
       = Some (Inr r, w1)"
    "find (\<lambda>f. fi_id f = fid) (financial_institutions w1) = Some fi"
    "\<not> first_pass_total w1 amount < amount"
    using retry_state_facts [OF Some] by blast
  have eq: "allocate_tokens_to_fi e w fid amount = allocate_tokens_to_fi e w1 fid amount"
    unfolding allocate_retry [OF f(1,2)] using f(3) by simp
  have "\<exists>out. allocate_tokens_to_fi e w1 fid amount = Some out"
    using f(4,5) by (rule allocate_direct_returns)
  moreover have "retry_state e w1 fid amount = None"
    using f(5) by (simp add: retry_state_def)
  ultimately show ?thesis using Some eq by simp
qed

theorem allocate_terminates_witness:
  "(\<exists>out. allocate_tokens_to_fi env0 vault_100_world ''FI-A'' 150 = Some out)
   \<and> (case retry_state env0 vault_100_world ''FI-A'' 150 of
        None \<Rightarrow> False
      | Some w1 \<Rightarrow>
          allocate_tokens_to_fi env0 vault_100_world ''FI-A'' 150
            = allocate_tokens_to_fi env0 w1 ''FI-A'' 150
          \<and> retry_state env0 w1 ''FI-A'' 150 = None)"
proof -
  have r: "retry_state env0 vault_100_world ''FI-A'' 150 \<noteq> None" by code_simp
  show ?thesis
    using r allocate_terminates [of env0 vault_100_world "''FI-A''" 150]
    by (auto split: option.splits)
qed

lemma allocate_row_dicts: "map row_dict (allocate_row fid ts s rows) = map row_dict rows"
  by (induction rows) (simp_all add: allocate_row_def row_dict_def)

lemma allocate_rows_dicts:
  "map row_dict (fold (\<lambda>t rows. allocate_row fid ts (serial_number t) rows) sel rows)
     = map row_dict rows"
  by (induction sel arbitrary: rows) (simp_all add: allocate_row_dicts)

lemma allocate_row_owned:
  assumes "\<forall>r\<in>set rows. serial_number r \<in> S
             \<longrightarrow> current_owner r = Some fid \<and> owner_type r = Some ''fi''"
  shows "\<forall>r\<in>set (allocate_row fid ts s rows). serial_number r \<in> insert s S
             \<longrightarrow> current_owner r = Some fid \<and> owner_type r = Some ''fi''"
  using assms by (auto simp: allocate_row_def)

lemma allocate_rows_owned:
  "\<forall>r\<in>set rows. serial_number r \<in> S
       \<longrightarrow> current_owner r = Some fid \<and> owner_type r = Some ''fi'' \<Longrightarrow>
   \<forall>r\<in>set (fold (\<lambda>t rows. allocate_row fid ts (serial_number t) rows) sel rows).
       serial_number r \<in> S \<union> set (map serial_number sel)
       \<longrightarrow> current_owner r = Some fid \<and> owner_type r = Some ''fi''"
proof (induction sel arbitrary: rows S)
  case Nil
  then show ?case by simp
next
  case (Cons t sel)
  have "\<forall>r\<in>set (allocate_row fid ts (serial_number t) rows).
      serial_number r \<in> insert (serial_number t) S
      \<longrightarrow> current_owner r = Some fid \<and> owner_type r = Some ''fi''"
    using Cons.prems by (rule allocate_row_owned)
  from Cons.IH [OF this] show ?case by simp
qed

lemma greedy_select_subset:
  "greedy_select ts amount sel tot = (sel', tot') \<Longrightarrow> set sel' \<subseteq> set sel \<union> set ts"
  by (induction ts amount sel tot rule: greedy_select.induct) (auto split: if_splits)

lemma exact_select_subset:
  "exact_select ts amount sel tot = (sel', tot') \<Longrightarrow> set sel' \<subseteq> set sel \<union> set ts"
  by (induction ts amount sel tot rule: exact_select.induct) (auto split: if_splits)

lemma first_pass_in_vault: "set (fst (greedy_select (cb_vault w) amount [] 0)) \<subseteq> set (cb_vault w)"
proof -
  obtain sel tot where g: "greedy_select (cb_vault w) amount [] 0 = (sel, tot)"
    by (cases "greedy_select (cb_vault w) amount [] 0")
  from greedy_select_subset [OF g] show ?thesis using g by simp
qed

lemma exact_pass_in_vault:
  "set (fst (exact_select (sort_key denomination (cb_vault w)) amount [] 0)) \<subseteq> set (cb_vault w)"
proof -
  obtain sel tot where g: "exact_select (sort_key denomination (cb_vault w)) amount [] 0 = (sel, tot)"
    by (cases "exact_select (sort_key denomination (cb_vault w)) amount [] 0")
  from exact_select_subset [OF g] show ?thesis using g by simp
qed

lemma cb_vault_rows: "set (cb_vault w) \<subseteq> set (map row_dict (tokens w))"
  by (auto simp: cb_vault_def)

lemma commit_allocation_success:
  assumes "commit_allocation e w fid fi sel tot = (Inr r, w')"
  shows "ar_amount r = tot \<and> ar_tokens r = sel \<and> ar_fi_id r = fid
       \<and> ledger w' \<noteq> [] \<and> total_amount (last (ledger w')) = tot
       \<and> transaction_type (last (ledger w')) = ''allocation''
       \<and> to_entity (last (ledger w')) = Some fid
       \<and> tokens w' = fold (\<lambda>t rows. allocate_row fid (clock_ms e (tick w)) (serial_number t) rows)
                        sel (tokens w)"
  using assms
  by (auto simp: commit_allocation_def Let_def insert_ledger_def next_tick_def
           split: option.splits if_splits)

lemma commit_allocation_held:
  assumes c: "commit_allocation e w fid fi sel tot = (Inr r, w')"
    and v: "set sel \<subseteq> set (cb_vault w)"
  shows "list_all (held_by w' fid) sel"
proof -
  have t: "tokens w' = fold (\<lambda>t rows. allocate_row fid (clock_ms e (tick w)) (serial_number t) rows)
      sel (tokens w)"
    using commit_allocation_success [OF c] by simp
  have d: "map row_dict (tokens w') = map row_dict (tokens w)"
    unfolding t by (rule allocate_rows_dicts)
  have "\<forall>r\<in>set (tokens w). serial_number r \<in> {}
      \<longrightarrow> current_owner r = Some fid \<and> owner_type r = Some ''fi''"
    by simp
  from allocate_rows_owned [OF this, of "clock_ms e (tick w)" sel]
  have o: "\<forall>r\<in>set (tokens w'). serial_number r \<in> set (map serial_number sel)
      \<longrightarrow> current_owner r = Some fid \<and> owner_type r = Some ''fi''"
    unfolding t by simp
  have "held_by w' fid x" if x: "x \<in> set sel" for x
  proof -
    have "x \<in> set (map row_dict (tokens w'))"
      using x v cb_vault_rows [of w] d by auto
    moreover have "\<forall>r\<in>set (tokens w'). serial_number r = serial_number x
        \<longrightarrow> current_owner r = Some fid \<and> owner_type r = Some ''fi''"
      using o x by auto
    ultimately show ?thesis by (simp add: held_by_def list_all_iff)
  qed
  then show ?thesis by (simp add: list_all_iff)
qed

lemma commit_allocation_mints_nothing:
  "minted_total (snd (commit_allocation e w fid fi sel tot)) = minted_total w
   \<and> map row_dict (tokens (snd (commit_allocation e w fid fi sel tot))) = map row_dict (tokens w)"
  by (simp add: commit_allocation_def Let_def insert_ledger_def next_tick_def rollback_def
      minted_total_def allocate_rows_dicts)

lemma allocate_direct_success:
  assumes fi: "find (\<lambda>f. fi_id f = fid) (financial_institutions w) = Some fi"
    and np: "\<not> first_pass_total w amount < amount"
    and pos: "0 \<le> amount"
    and ok: "allocate_tokens_to_fi e w fid amount = Some (Inr r, w')"
  shows "ar_amount r = amount \<and> tokens_to_amount (ar_tokens r) = amount
       \<and> total_amount (last (ledger w')) = amount
       \<and> transaction_type (last (ledger w')) = ''allocation''
       \<and> list_all (held_by w' fid) (ar_tokens r)"
proof (cases "amount < first_pass_total w amount")
  case True
  show ?thesis
  proof (cases "exact_pass_total w amount < amount")
    case True
    obtain out where "mint_mixed_tokens e w amount (AllocationFor fid) = Some out"
      using mint_mixed_outcome by blast
    then have False
      using ok \<open>amount < first_pass_total w amount\<close> True
      unfolding allocate_direct [OF fi np]
      by (cases out; cases "fst out") auto
    then show ?thesis ..
  next
    case False
    then have eq: "exact_pass_total w amount = amount"
      using exact_pass_selected [of w amount] pos by auto
    have c: "commit_allocation e w fid fi
            (fst (exact_select (sort_key denomination (cb_vault w)) amount [] 0))
            (exact_pass_total w amount) = (Inr r, w')"
      using ok True False unfolding allocate_direct [OF fi np] by simp
    have "list_all (held_by w' fid)
        (fst (exact_select (sort_key denomination (cb_vault w)) amount [] 0))"
      using c exact_pass_in_vault by (rule commit_allocation_held)
    then show ?thesis
      using commit_allocation_success [OF c] eq exact_pass_selected [of w amount] by simp
  qed
next
  case False
  then have eq: "first_pass_total w amount = amount" using np by simp
  have c: "commit_allocation e w fid fi (fst (greedy_select (cb_vault w) amount [] 0))
          (first_pass_total w amount) = (Inr r, w')"
    using ok False unfolding allocate_direct [OF fi np] by simp
  have "list_all (held_by w' fid) (fst (greedy_select (cb_vault w) amount [] 0))"
    using c first_pass_in_vault by (rule commit_allocation_held)
  then show ?thesis
    using commit_allocation_success [OF c] eq first_pass_selected [of w amount] by simp
qed

lemma retry_stateI:
  assumes "find (\<lambda>f. fi_id f = fid) (financial_institutions w) = Some fi"
    and "first_pass_total w amount < amount"
    and "mint_mixed_tokens e w (amount - first_pass_total w amount) (AdditionalFor fid)
           = Some (Inr r, w1)"
  shows "retry_state e w fid amount = Some w1"
  using assms by (simp add: retry_state_def registered_def)

lemma greedy_select_reaches:
  "\<forall>t\<in>set ts. 0 < denomination t \<Longrightarrow> tot + tokens_to_amount ts = amount \<Longrightarrow>
   snd (greedy_select ts amount sel tot) = amount"
proof (induction ts amount sel tot rule: greedy_select.induct)
  case (1 amount selected total_spent)
  then show ?case by (simp add: tokens_to_amount_def)
next
  case (2 token rest amount selected total_spent)
  have nn: "0 \<le> tokens_to_amount (token # rest)"
    unfolding tokens_to_amount_def using "2.prems"(1)
    by (intro sum_list_nonneg) (auto simp: less_imp_le)
  show ?case
  proof (cases "total_spent \<ge> amount")
    case True
    then show ?thesis using "2.prems"(2) nn by simp
  next
    case False
    have "snd (greedy_select rest amount (selected @ [token]) (total_spent + denomination token))
        = amount"
      using False "2.prems" by (intro "2.IH") (simp_all add: tokens_to_amount_def)
    then show ?thesis using False by simp
  qed
qed

lemma mint_mixed_positive:
  assumes "mint_mixed_tokens e w amount p = Some (Inr r, w')"
  shows "\<forall>t\<in>set (mr_tokens r). 0 < denomination t"
proof -
  have pos: "0 < amount" using assms by (auto simp: mint_mixed_tokens_def split: if_splits)
  define ds where "ds = greedy (rev (sort DENOMINATIONS)) amount"
  have mc: "make_change amount = Some ds" using pos by (simp add: make_change_greedy ds_def)
  have "set ds \<subseteq> set (rev (sort DENOMINATIONS))" unfolding ds_def by (rule set_greedy)
  then have dpos: "\<forall>d\<in>set ds. 0 < d" using positive_denominations by blast
  define b where "b = ''BATCH-'' @ token_hex e (tick w)"
  define ts where "ts = clock_ms e (tick w)"
  have sum: "sum_list ds = amount" using pos by (simp add: ds_def sum_list_make_change)
  obtain w2 toks where it: "insert_tokens e b ts ds (next_tick w) [] = Inr (w2, toks)"
    using assms pos mc sum
    by (cases "insert_tokens e b ts ds (next_tick w) []")
       (auto simp: mint_mixed_tokens_def Let_def b_def ts_def)
  have "mr_tokens r = toks"
    using assms pos mc sum it
    by (auto simp: mint_mixed_tokens_def Let_def b_def ts_def record_mint_def
             split: option.splits)
  moreover obtain new where "map denomination new = ds" "toks = [] @ map row_dict new"
    using insert_tokens_effect [OF it] by blast
  moreover have "map denomination (map row_dict new) = map denomination new"
    by (simp add: row_dict_def)
  ultimately have "map denomination (mr_tokens r) = ds" by simp
  then have "set (map denomination (mr_tokens r)) = set ds" by simp
  then show ?thesis using dpos by auto
qed

lemma mint_mixed_error:
  assumes "0 < amount" and "mint_mixed_tokens e w amount p = Some (Inl err, w')"
  shows "err = IntegrityError"
proof -
  obtain ds where ds: "make_change amount = Some ds" "sum_list ds = amount"
    using make_change_sum [OF assms(1)] by auto
  show ?thesis
    using assms ds
    by (auto simp: mint_mixed_tokens_def record_mint_def Let_def
             split: sum.splits option.splits prod.splits)
qed

lemma commit_allocation_error:
  "commit_allocation e w fid fi sel tot = (Inl err, w') \<Longrightarrow> err = IntegrityError"
  by (auto simp: commit_allocation_def Let_def split: option.splits)

lemma vault_set_after_mint:
  assumes "minted_step w w' n toks"
  shows "set (cb_vault w') = set (cb_vault w) \<union> set toks"
proof -
  obtain new where new: "tokens w' = tokens w @ new" "list_all vault_row new"
    "toks = map row_dict new"
    using assms unfolding minted_step_def by blast
  show ?thesis using new by (simp add: cb_vault_def filter_vault_rows image_Un)
qed

lemma retry_commits:
  assumes fi: "find (\<lambda>f. fi_id f = fid) (financial_institutions w) = Some fi"
    and short: "first_pass_total w amount < amount"
    and vpos: "list_all (\<lambda>t. 0 < denomination t) (cb_vault w)"
  shows "\<exists>out. allocate_tokens_to_fi e w fid amount = Some out
           \<and> (\<forall>err. fst out = Inl err \<longrightarrow> err = IntegrityError)"
proof -
  have apos: "0 < amount - first_pass_total w amount" using short by simp
  obtain out1 where m: "mint_mixed_tokens e w (amount - first_pass_total w amount)
      (AdditionalFor fid) = Some out1" "mint_outcome w out1"
    "\<forall>r. fst out1 = Inr r \<longrightarrow> mr_total_value r = amount - first_pass_total w amount"
    using mint_mixed_outcome [of e w "amount - first_pass_total w amount" "AdditionalFor fid"]
    by blast
  obtain res w1 where o: "out1 = (res, w1)" by (cases out1)
  show ?thesis
  proof (cases res)
    case (Inl err)
    have "err = IntegrityError" using apos m(1) [unfolded o Inl] by (rule mint_mixed_error)
    moreover have "allocate_tokens_to_fi e w fid amount = Some (Inl err, w1)"
      unfolding allocate_retry [OF fi short] using m(1) o Inl by simp
    ultimately show ?thesis by simp
  next
    case (Inr r)
    have mm: "mint_mixed_tokens e w (amount - first_pass_total w amount) (AdditionalFor fid)
        = Some (Inr r, w1)"
      using m(1) o Inr by simp
    have step: "minted_step w w1 (amount - first_pass_total w amount) (mr_tokens r)"
      using m(2,3) o Inr by (auto simp: mint_outcome_def)
    have vt: "vault_total w1 = amount"
      using vault_after_mint [OF step] first_pass_short [OF short] by simp
    have "\<forall>t\<in>set (cb_vault w1). 0 < denomination t"
      using vault_set_after_mint [OF step] vpos mint_mixed_positive [OF mm]
      by (auto simp: list_all_iff)
    then have hit: "first_pass_total w1 amount = amount"
      unfolding first_pass_total_def
      using vt by (intro greedy_select_reaches) (simp_all add: vault_total_def)
    have np: "\<not> first_pass_total w1 amount < amount" using hit by simp
    have fi1: "find (\<lambda>f. fi_id f = fid) (financial_institutions w1) = Some fi"
      using fi step by (auto simp: minted_step_def)
    have a1: "allocate_tokens_to_fi e w1 fid amount
        = Some (commit_allocation e w1 fid fi (fst (greedy_select (cb_vault w1) amount [] 0))
                  (first_pass_total w1 amount))"
      unfolding allocate_direct [OF fi1 np] using hit by simp
    have a: "allocate_tokens_to_fi e w fid amount = allocate_tokens_to_fi e w1 fid amount"
      unfolding allocate_retry [OF fi short] using mm by simp
    show ?thesis
      unfolding a a1 using commit_allocation_error by (auto simp: fst_def split: prod.splits)
  qed
qed

text \<open>
  Claim C8 (allocation shortfall minting), as the code has it. For a registered institution
  and a positive amount:
  \<^item> if the descending pass over the vault ends below the amount, it has taken the whole
    vault; the call mints, through \<open>mint_mixed_tokens\<close>, exactly the amount minus the value
    of the vault, after which the vault is worth exactly the amount, and then calls itself;
    if the tokens of the vault all have positive denominations, the call then returns a
    success unless an insert repeats a primary key;
  \<^item> if the descending pass ends exactly on the amount, the call returns without any
    mint: no token is created and the ledger gets no mint entry;
  \<^item> whenever the call returns a success, the allocation it reports and has entered in the
    ledger is of exactly the amount, so is the sum of the tokens it names, and each of
    these tokens is a row of the tokens table whose owner is the institution.
\<close>

theorem allocate_shortfall:
  assumes "registered w fid" and "0 < amount"
  shows
    "(first_pass_total w amount < amount \<longrightarrow>
        first_pass_total w amount = vault_total w
        \<and> allocate_tokens_to_fi e w fid amount =
            (case mint_mixed_tokens e w (amount - vault_total w) (AdditionalFor fid) of
               None \<Rightarrow> None
             | Some (Inl err, w1) \<Rightarrow> Some (Inl err, w1)
             | Some (Inr r, w1) \<Rightarrow> allocate_tokens_to_fi e w1 fid amount)
        \<and> (\<forall>r w1. mint_mixed_tokens e w (amount - vault_total w) (AdditionalFor fid)
                      = Some (Inr r, w1)
             \<longrightarrow> mr_total_value r = amount - vault_total w \<and> vault_total w1 = amount))
     \<and> (first_pass_total w amount < amount \<and> list_all (\<lambda>t. 0 < denomination t) (cb_vault w)
          \<longrightarrow> (\<exists>out. allocate_tokens_to_fi e w fid amount = Some out
                 \<and> (\<forall>err. fst out = Inl err \<longrightarrow> err = IntegrityError)))
     \<and> (first_pass_total w amount = amount \<longrightarrow>
          (\<exists>out. allocate_tokens_to_fi e w fid amount = Some out
             \<and> minted_total (snd out) = minted_total w
             \<and> map row_dict (tokens (snd out)) = map row_dict (tokens w)))
     \<and> (\<forall>r w'. allocate_tokens_to_fi e w fid amount = Some (Inr r, w')
           \<longrightarrow> ar_amount r = amount \<and> tokens_to_amount (ar_tokens r) = amount
               \<and> total_amount (last (ledger w')) = amount
               \<and> transaction_type (last (ledger w')) = ''allocation''
               \<and> list_all (held_by w' fid) (ar_tokens r))"
proof -
  obtain fi where fi: "find (\<lambda>f. fi_id f = fid) (financial_institutions w) = Some fi"
    using assms(1) by (auto simp: registered_def)
  have first: "first_pass_total w amount = vault_total w
        \<and> allocate_tokens_to_fi e w fid amount =
            (case mint_mixed_tokens e w (amount - vault_total w) (AdditionalFor fid) of
               None \<Rightarrow> None
             | Some (Inl err, w1) \<Rightarrow> Some (Inl err, w1)
             | Some (Inr r, w1) \<Rightarrow> allocate_tokens_to_fi e w1 fid amount)
        \<and> (\<forall>r w1. mint_mixed_tokens e w (amount - vault_total w) (AdditionalFor fid)
                      = Some (Inr r, w1)
             \<longrightarrow> mr_total_value r = amount - vault_total w \<and> vault_total w1 = amount)"
    if short: "first_pass_total w amount < amount"
  proof -
    have v: "first_pass_total w amount = vault_total w" using short by (rule first_pass_short)
    have a: "allocate_tokens_to_fi e w fid amount =
            (case mint_mixed_tokens e w (amount - vault_total w) (AdditionalFor fid) of
               None \<Rightarrow> None
             | Some (Inl err, w1) \<Rightarrow> Some (Inl err, w1)
             | Some (Inr r, w1) \<Rightarrow> allocate_tokens_to_fi e w1 fid amount)"
      using allocate_retry [OF fi short] v by simp
    have b: "mr_total_value r = amount - vault_total w \<and> vault_total w1 = amount"
      if m: "mint_mixed_tokens e w (amount - vault_total w) (AdditionalFor fid) = Some (Inr r, w1)"
      for r w1
    proof -
      obtain out where out: "mint_mixed_tokens e w (amount - vault_total w) (AdditionalFor fid)
          = Some out" "mint_outcome w out"
        "\<forall>r. fst out = Inr r \<longrightarrow> 0 < amount - vault_total w
               \<and> mr_total_value r = amount - vault_total w"
        using mint_mixed_outcome [of e w "amount - vault_total w" "AdditionalFor fid"] by blast
      have val: "mr_total_value r = amount - vault_total w" using out m by auto
      have "minted_step w w1 (amount - vault_total w) (mr_tokens r)"
        using out m val by (auto simp: mint_outcome_def)
      from vault_after_mint [OF this] show ?thesis using val by simp
    qed
    show ?thesis using v a b by blast
  qed
  have commits: "\<exists>out. allocate_tokens_to_fi e w fid amount = Some out
                 \<and> (\<forall>err. fst out = Inl err \<longrightarrow> err = IntegrityError)"
    if "first_pass_total w amount < amount \<and> list_all (\<lambda>t. 0 < denomination t) (cb_vault w)"
    using fi that by (intro retry_commits) simp_all
  have second: "\<exists>out. allocate_tokens_to_fi e w fid amount = Some out
             \<and> minted_total (snd out) = minted_total w
             \<and> map row_dict (tokens (snd out)) = map row_dict (tokens w)"
    if hit: "first_pass_total w amount = amount"
  proof -
    have np: "\<not> first_pass_total w amount < amount" using hit by simp
    have "allocate_tokens_to_fi e w fid amount
        = Some (commit_allocation e w fid fi (fst (greedy_select (cb_vault w) amount [] 0))
                  (first_pass_total w amount))"
      unfolding allocate_direct [OF fi np] using hit by simp
    then show ?thesis using commit_allocation_mints_nothing by blast
  qed
  have third: "ar_amount r = amount \<and> tokens_to_amount (ar_tokens r) = amount
               \<and> total_amount (last (ledger w')) = amount
               \<and> transaction_type (last (ledger w')) = ''allocation''
               \<and> list_all (held_by w' fid) (ar_tokens r)"
    if ok: "allocate_tokens_to_fi e w fid amount = Some (Inr r, w')" for r w'
  proof (cases "first_pass_total w amount < amount")
    case False
    have "0 \<le> amount" using assms(2) by simp
    from allocate_direct_success [OF fi False this ok] show ?thesis .
  next
    case True
    obtain out where out: "mint_mixed_tokens e w (amount - first_pass_total w amount)
        (AdditionalFor fid) = Some out"
      using mint_mixed_outcome by blast
    obtain r1 w1 where m: "out = (Inr r1, w1)"
      using ok out unfolding allocate_retry [OF fi True]
      by (cases out; cases "fst out") auto
    have rs: "retry_state e w fid amount = Some w1"
      using fi True out [unfolded m] by (rule retry_stateI)
    obtain fi' where f: "find (\<lambda>f. fi_id f = fid) (financial_institutions w1) = Some fi'"
      "\<not> first_pass_total w1 amount < amount"
      using retry_state_facts [OF rs] by blast
    have ok1: "allocate_tokens_to_fi e w1 fid amount = Some (Inr r, w')"
      using ok out m unfolding allocate_retry [OF fi True] by simp
    have "0 \<le> amount" using assms(2) by simp
    from allocate_direct_success [OF f(1) f(2) this ok1] show ?thesis .
  qed
  show ?thesis using first commits second third by blast
qed

theorem allocate_shortfall_witness:
  "registered vault_100_world ''FI-A'' \<and> (0::int) < 150
   \<and> first_pass_total vault_100_world 150 < 150
   \<and> list_all (\<lambda>t. 0 < denomination t) (cb_vault vault_100_world)
   \<and> first_pass_total vault_100_world 150 = vault_total vault_100_world
   \<and> allocate_tokens_to_fi env0 vault_100_world ''FI-A'' 150 =
        (case mint_mixed_tokens env0 vault_100_world (150 - vault_total vault_100_world)
                (AdditionalFor ''FI-A'') of
           None \<Rightarrow> None
         | Some (Inl err, w1) \<Rightarrow> Some (Inl err, w1)
         | Some (Inr r, w1) \<Rightarrow> allocate_tokens_to_fi env0 w1 ''FI-A'' 150)
   \<and> map_option
        (\<lambda>(out, w'). (case out of Inl err \<Rightarrow> None
                      | Inr r \<Rightarrow> Some (ar_amount r, map denomination (ar_tokens r),
                                        list_all (held_by w' ''FI-A'') (ar_tokens r)),
                     minted_total w' - minted_total vault_100_world, fi_balance w' ''FI-A''))
        (allocate_tokens_to_fi env0 vault_100_world ''FI-A'' 150)
      = Some (Some (150, [100, 50], True), 50, 150)"
proof -
  have h1: "registered vault_100_world ''FI-A''" by code_simp
  have h2: "(0::int) < 150" by simp
  have h3: "first_pass_total vault_100_world 150 < 150" by code_simp
  have h4: "list_all (\<lambda>t. 0 < denomination t) (cb_vault vault_100_world)" by code_simp
  have e: "map_option
        (\<lambda>(out, w'). (case out of Inl err \<Rightarrow> None
                      | Inr r \<Rightarrow> Some (ar_amount r, map denomination (ar_tokens r),
                                        list_all (held_by w' ''FI-A'') (ar_tokens r)),
                     minted_total w' - minted_total vault_100_world, fi_balance w' ''FI-A''))
        (allocate_tokens_to_fi env0 vault_100_world ''FI-A'' 150)
      = Some (Some (150, [100, 50], True), 50, 150)"
    by code_simp
  show ?thesis
    using allocate_shortfall [OF h1 h2, of env0] h1 h2 h3 h4 e by blast
qed

text \<open>
  Claim C8 as stated fails where the descending pass ends exactly on the amount although
  the ascending pass does not: after registering FI-A and minting tokens of 100, 50, 50
  and 20, the ascending pass of an allocation of 150 covers 120, so the vault cannot cover
  the amount with an ascending exact subset and the shortfall would be 30; the call mints
  nothing and allocates the tokens of 100 and 50 that the descending pass selected.
\<close>

theorem allocate_exact_hit_mints_nothing:
  "Option.bind (run env0 init_db [RegisterFI ''FI-A'' ''Bank A'' ''http://a'',
                                  MintTokens 100 1 (Text ''x''),
                                  MintTokens 50 2 (Text ''x''),
                                  MintTokens 20 1 (Text ''x'')])
     (\<lambda>w. map_option
        (\<lambda>(out, w'). (case out of Inl err \<Rightarrow> None
                      | Inr r \<Rightarrow> Some (ar_amount r, map denomination (ar_tokens r)),
                     exact_pass_total w 150, vault_total w,
                     minted_total w' - minted_total w, fi_balance w' ''FI-A''))
        (allocate_tokens_to_fi env0 w ''FI-A'' 150))
   = Some (Some (150, [100, 50]), 120, 220, 0, 150)"
  by code_simp

section \<open>Conservation\<close>

subsection \<open>The invariants and the single operations\<close>

lemma ledger_ok_init: "ledger_ok init_db"
  by (simp add: ledger_ok_def init_db_def minted_total_def)

lemma tiers_ok_init: "tiers_ok init_db"
  by (simp add: tiers_ok_def init_db_def)

lemma ledger_ok_tick: "ledger_ok (w\<lparr>tick := k\<rparr>) = ledger_ok w"
  by (simp add: ledger_ok_def minted_total_def)

lemma tiers_ok_tick: "tiers_ok (w\<lparr>tick := k\<rparr>) = tiers_ok w"
  by (simp add: tiers_ok_def)

lemma vault_row_active: "list_all vault_row new \<Longrightarrow> \<forall>r\<in>set new. status r = Some ''active''"
  by (simp add: list_all_iff vault_row_def)

lemma vault_row_tier: "list_all vault_row new \<Longrightarrow> list_all tier_row new"
  by (simp add: list_all_iff vault_row_def tier_row_def)

lemma ledger_ok_minted:
  assumes "ledger_ok w" and "minted_step w w' n toks"
  shows "ledger_ok w'"
proof -
  obtain new entry where s: "tokens w' = tokens w @ new" "list_all vault_row new"
    "sum_list (map denomination new) = n"
    "distinct (map serial_number new)"
    "set (map serial_number new) \<inter> set (map serial_number (tokens w)) = {}"
    "ledger w' = ledger w @ [entry]" "transaction_type entry = ''mint''"
    "total_amount entry = n"
    using assms(2) unfolding minted_step_def by blast
  have a: "\<forall>r\<in>set (tokens w'). status r = Some ''active''"
    using assms(1) s(1) vault_row_active [OF s(2)] by (auto simp: ledger_ok_def)
  have b: "sum_list (map denomination (tokens w')) = minted_total w'"
    using assms(1) s by (simp add: ledger_ok_def minted_total_def)
  have c: "distinct (map serial_number (tokens w'))"
    using assms(1) s by (auto simp: ledger_ok_def)
  show ?thesis using a b c by (simp add: ledger_ok_def)
qed

lemma tiers_ok_minted:
  assumes "tiers_ok w" and "minted_step w w' n toks"
  shows "tiers_ok w'"
proof -
  obtain new where s: "tokens w' = tokens w @ new" "list_all vault_row new"
    using assms(2) unfolding minted_step_def by blast
  show ?thesis using assms(1) s(1) vault_row_tier [OF s(2)] by (simp add: tiers_ok_def)
qed

lemma ledger_ok_mint_outcome: "ledger_ok w \<Longrightarrow> mint_outcome w out \<Longrightarrow> ledger_ok (snd out)"
proof (cases out)
  case (Pair res w')
  assume a: "ledger_ok w" "mint_outcome w out"
  show ?thesis
  proof (cases res)
    case (Inl err)
    then have "w' = w\<lparr>tick := tick w'\<rparr>" using a(2) Pair by (simp add: mint_outcome_def)
    then have "ledger_ok w' = ledger_ok w" using ledger_ok_tick [where w = w and k = "tick w'"] by simp
    then show ?thesis using a(1) Pair by simp
  next
    case (Inr r)
    then have "minted_step w w' (mr_total_value r) (mr_tokens r)"
      using a(2) Pair by (simp add: mint_outcome_def)
    then show ?thesis using a(1) Pair ledger_ok_minted by auto
  qed
qed

lemma tiers_ok_mint_outcome: "tiers_ok w \<Longrightarrow> mint_outcome w out \<Longrightarrow> tiers_ok (snd out)"
proof (cases out)
  case (Pair res w')
  assume a: "tiers_ok w" "mint_outcome w out"
  show ?thesis
  proof (cases res)
    case (Inl err)
    then have "w' = w\<lparr>tick := tick w'\<rparr>" using a(2) Pair by (simp add: mint_outcome_def)
    then have "tiers_ok w' = tiers_ok w" using tiers_ok_tick [where w = w and k = "tick w'"] by simp
    then show ?thesis using a(1) Pair by simp
  next
    case (Inr r)
    then have "minted_step w w' (mr_total_value r) (mr_tokens r)"
      using a(2) Pair by (simp add: mint_outcome_def)
    then show ?thesis using a(1) Pair tiers_ok_minted by auto
  qed
qed

lemma register_fi_tables:
  "tokens (snd (register_fi e w fid name url)) = tokens w
   \<and> ledger (snd (register_fi e w fid name url)) = ledger w"
  by (simp add: register_fi_def Let_def next_tick_def)

lemma ledger_ok_cong: "tokens w' = tokens w \<Longrightarrow> ledger w' = ledger w \<Longrightarrow> ledger_ok w' = ledger_ok w"
  by (simp add: ledger_ok_def minted_total_def)

lemma tiers_ok_cong: "tokens w' = tokens w \<Longrightarrow> tiers_ok w' = tiers_ok w"
  by (simp add: tiers_ok_def)

subsection \<open>Ownership updates\<close>

lemma allocate_row_maps:
  "map serial_number (allocate_row fid ts s rows) = map serial_number rows"
  "map status (allocate_row fid ts s rows) = map status rows"
  "map denomination (allocate_row fid ts s rows) = map denomination rows"
  by (induction rows) (simp_all add: allocate_row_def)

lemma allocate_rows_maps:
  "map serial_number (fold (\<lambda>t rows. allocate_row fid ts (serial_number t) rows) sel rows)
     = map serial_number rows
   \<and> map status (fold (\<lambda>t rows. allocate_row fid ts (serial_number t) rows) sel rows)
     = map status rows
   \<and> map denomination (fold (\<lambda>t rows. allocate_row fid ts (serial_number t) rows) sel rows)
     = map denomination rows"
  by (induction sel arbitrary: rows) (simp_all add: allocate_row_maps)

lemma allocate_row_tier:
  "fid \<noteq> ''CB'' \<Longrightarrow> list_all tier_row rows \<Longrightarrow> list_all tier_row (allocate_row fid ts s rows)"
  by (induction rows) (simp_all add: allocate_row_def tier_row_def)

lemma allocate_rows_tier:
  "fid \<noteq> ''CB'' \<Longrightarrow> list_all tier_row rows \<Longrightarrow>
   list_all tier_row (fold (\<lambda>t rows. allocate_row fid ts (serial_number t) rows) sel rows)"
  by (induction sel arbitrary: rows) (simp_all add: allocate_row_tier)

lemma all_active_map: "(\<forall>r\<in>set rows. status r = Some a) \<longleftrightarrow> set (map status rows) \<subseteq> {Some a}"
  by auto

lemma ledger_ok_maps:
  assumes "map serial_number (tokens w') = map serial_number (tokens w)
      \<and> map status (tokens w') = map status (tokens w)
      \<and> map denomination (tokens w') = map denomination (tokens w)"
    and "minted_total w' = minted_total w"
    and "ledger_ok w"
  shows "ledger_ok w'"
  using assms unfolding ledger_ok_def all_active_map by simp

lemma commit_allocation_tokens:
  "tokens (snd (commit_allocation e w fid fi sel tot)) = tokens w
   \<or> tokens (snd (commit_allocation e w fid fi sel tot))
      = fold (\<lambda>t rows. allocate_row fid (clock_ms e (tick w)) (serial_number t) rows) sel (tokens w)"
  by (simp add: commit_allocation_def Let_def insert_ledger_def next_tick_def rollback_def)

lemma commit_allocation_minted:
  "minted_total (snd (commit_allocation e w fid fi sel tot)) = minted_total w"
  by (simp add: commit_allocation_def Let_def insert_ledger_def next_tick_def rollback_def
      minted_total_def)

lemma ledger_ok_commit:
  assumes "ledger_ok w"
  shows "ledger_ok (snd (commit_allocation e w fid fi sel tot))"
proof -
  let ?w' = "snd (commit_allocation e w fid fi sel tot)"
  have "map serial_number (tokens ?w') = map serial_number (tokens w)
      \<and> map status (tokens ?w') = map status (tokens w)
      \<and> map denomination (tokens ?w') = map denomination (tokens w)"
    using commit_allocation_tokens [of e w fid fi sel tot]
  proof
    assume "tokens ?w' = tokens w"
    then show ?thesis by simp
  next
    assume "tokens ?w'
      = fold (\<lambda>t rows. allocate_row fid (clock_ms e (tick w)) (serial_number t) rows) sel (tokens w)"
    then show ?thesis
      using allocate_rows_maps [of fid "clock_ms e (tick w)" sel "tokens w"] by simp
  qed
  then show ?thesis
    using commit_allocation_minted [of e w fid fi sel tot] assms by (rule ledger_ok_maps)
qed

lemma tiers_ok_commit:
  assumes "tiers_ok w" and "fid \<noteq> ''CB''"
  shows "tiers_ok (snd (commit_allocation e w fid fi sel tot))"
  using commit_allocation_tokens [of e w fid fi sel tot]
proof
  assume "tokens (snd (commit_allocation e w fid fi sel tot)) = tokens w"
  then show ?thesis using assms(1) by (simp add: tiers_ok_def)
next
  assume "tokens (snd (commit_allocation e w fid fi sel tot))
      = fold (\<lambda>t rows. allocate_row fid (clock_ms e (tick w)) (serial_number t) rows) sel (tokens w)"
  then show ?thesis
    using allocate_rows_tier [OF assms(2), of "tokens w" "clock_ms e (tick w)" sel] assms(1)
    by (simp add: tiers_ok_def)
qed

lemma transfer_row_maps:
  "map serial_number (transfer_row to_fi ts s rows) = map serial_number rows"
  "map status (transfer_row to_fi ts s rows) = map status rows"
  "map denomination (transfer_row to_fi ts s rows) = map denomination rows"
  by (induction rows) (simp_all add: transfer_row_def)

lemma transfer_loop_maps:
  "transfer_loop from_fi to_fi ts serials rows tot = Inr (rows', tot') \<Longrightarrow>
   map serial_number rows' = map serial_number rows
   \<and> map status rows' = map status rows
   \<and> map denomination rows' = map denomination rows"
proof (induction serials arbitrary: rows tot)
  case Nil
  then show ?case by simp
next
  case (Cons x xs)
  show ?case
  proof (cases "find (\<lambda>r. serial_number r = x \<and> current_owner r = Some from_fi) rows")
    case None
    then show ?thesis using Cons.prems by simp
  next
    case (Some token)
    then have "transfer_loop from_fi to_fi ts xs (transfer_row to_fi ts x rows)
        (tot + denomination token) = Inr (rows', tot')"
      using Cons.prems by simp
    from Cons.IH [OF this] show ?thesis by (simp add: transfer_row_maps)
  qed
qed

lemma distinct_key_eq:
  "distinct (map f xs) \<Longrightarrow> a \<in> set xs \<Longrightarrow> b \<in> set xs \<Longrightarrow> f a = f b \<Longrightarrow> a = b"
  by (auto simp: distinct_map dest: inj_onD)

lemma transfer_row_tier:
  assumes "to_fi \<noteq> ''CB''" and "from_fi \<noteq> ''CB''"
    and "distinct (map serial_number rows)" and "list_all tier_row rows"
    and "token \<in> set rows" and "serial_number token = s"
    and "current_owner token = Some from_fi"
  shows "list_all tier_row (transfer_row to_fi ts s rows)"
proof -
  define upd :: "token_row \<Rightarrow> token_row" where "upd = (\<lambda>r. if serial_number r = s
      then r\<lparr>current_owner := Some to_fi, last_transfer_at := Some ts\<rparr> else r)"
  have "tier_row (upd r)" if r: "r \<in> set rows" for r
  proof (cases "serial_number r = s")
    case True
    have "r = token"
      using assms(3) r assms(5) by (rule distinct_key_eq) (simp add: True assms(6))
    then have "owner_type r = Some ''fi''"
      using assms(2,4,7) r by (auto simp: list_all_iff tier_row_def)
    then show ?thesis using True assms(1) by (simp add: tier_row_def upd_def)
  next
    case False
    then show ?thesis using assms(4) r by (simp add: list_all_iff upd_def)
  qed
  then have "list_all tier_row (map upd rows)" by (simp add: list_all_iff)
  moreover have "transfer_row to_fi ts s rows = map upd rows"
    by (simp add: transfer_row_def upd_def)
  ultimately show ?thesis by simp
qed

lemma transfer_loop_tier:
  assumes "to_fi \<noteq> ''CB''" and "from_fi \<noteq> ''CB''"
  shows "distinct (map serial_number rows) \<Longrightarrow> list_all tier_row rows \<Longrightarrow>
    transfer_loop from_fi to_fi ts serials rows tot = Inr (rows', tot') \<Longrightarrow>
    list_all tier_row rows'"
proof (induction serials arbitrary: rows tot)
  case Nil
  then show ?case by simp
next
  case (Cons x xs)
  obtain token where f: "find (\<lambda>r. serial_number r = x \<and> current_owner r = Some from_fi) rows
      = Some token"
    and rec: "transfer_loop from_fi to_fi ts xs (transfer_row to_fi ts x rows)
        (tot + denomination token) = Inr (rows', tot')"
    using Cons.prems(3) by (auto split: option.splits)
  have t: "token \<in> set rows" "serial_number token = x" "current_owner token = Some from_fi"
    using f by (auto simp: find_Some_iff)
  have d: "distinct (map serial_number (transfer_row to_fi ts x rows))"
    using Cons.prems(1) by (simp add: transfer_row_maps)
  have "list_all tier_row (transfer_row to_fi ts x rows)"
    using assms Cons.prems(1,2) t by (rule transfer_row_tier)
  with d show ?case using rec by (rule Cons.IH)
qed

lemma transfer_cases:
  "(\<exists>err w'. transfer_tokens_between_fis e w from_fi to_fi serials = (Inl err, w')
      \<and> w' = w\<lparr>tick := tick w'\<rparr>)
   \<or> (\<exists>r w' rows tot. transfer_tokens_between_fis e w from_fi to_fi serials = (Inr r, w')
      \<and> transfer_loop from_fi to_fi (clock_ms e (tick w)) serials (tokens w) 0 = Inr (rows, tot)
      \<and> tokens w' = rows \<and> minted_total w' = minted_total w)"
proof (cases "transfer_loop from_fi to_fi (clock_ms e (tick w)) serials (tokens w) 0")
  case (Inl serial)
  then show ?thesis
    by (simp add: transfer_tokens_between_fis_def Let_def next_tick_def rollback_def)
next
  case (Inr p)
  obtain rows tot where p: "p = (rows, tot)" by (cases p)
  show ?thesis
    using Inr p
    by (simp add: transfer_tokens_between_fis_def Let_def insert_ledger_def next_tick_def
        rollback_def minted_total_def)
qed

lemma ledger_ok_transfer:
  assumes "ledger_ok w"
  shows "ledger_ok (snd (transfer_tokens_between_fis e w from_fi to_fi serials))"
  using transfer_cases [of e w from_fi to_fi serials]
proof
  assume "\<exists>err w'. transfer_tokens_between_fis e w from_fi to_fi serials = (Inl err, w')
      \<and> w' = w\<lparr>tick := tick w'\<rparr>"
  then obtain err w' where a: "transfer_tokens_between_fis e w from_fi to_fi serials = (Inl err, w')"
    "w' = w\<lparr>tick := tick w'\<rparr>" by blast
  have "ledger_ok w' = ledger_ok w" using ledger_ok_tick [where w = w and k = "tick w'"] a(2) by simp
  then show ?thesis using a(1) assms by simp
next
  assume "\<exists>r w' rows tot. transfer_tokens_between_fis e w from_fi to_fi serials = (Inr r, w')
      \<and> transfer_loop from_fi to_fi (clock_ms e (tick w)) serials (tokens w) 0 = Inr (rows, tot)
      \<and> tokens w' = rows \<and> minted_total w' = minted_total w"
  then obtain r w' rows tot where a:
    "transfer_tokens_between_fis e w from_fi to_fi serials = (Inr r, w')"
    "transfer_loop from_fi to_fi (clock_ms e (tick w)) serials (tokens w) 0 = Inr (rows, tot)"
    "tokens w' = rows" "minted_total w' = minted_total w" by blast
  have "map serial_number (tokens w') = map serial_number (tokens w)
      \<and> map status (tokens w') = map status (tokens w)
      \<and> map denomination (tokens w') = map denomination (tokens w)"
    using transfer_loop_maps [OF a(2)] a(3) by simp
  then have "ledger_ok w'" using a(4) assms by (rule ledger_ok_maps)
  then show ?thesis using a(1) by simp
qed

lemma tiers_ok_transfer:
  assumes "tiers_ok w" and "ledger_ok w" and "from_fi \<noteq> ''CB''" and "to_fi \<noteq> ''CB''"
  shows "tiers_ok (snd (transfer_tokens_between_fis e w from_fi to_fi serials))"
  using transfer_cases [of e w from_fi to_fi serials]
proof
  assume "\<exists>err w'. transfer_tokens_between_fis e w from_fi to_fi serials = (Inl err, w')
      \<and> w' = w\<lparr>tick := tick w'\<rparr>"
  then obtain err w' where a: "transfer_tokens_between_fis e w from_fi to_fi serials = (Inl err, w')"
    "w' = w\<lparr>tick := tick w'\<rparr>" by blast
  have "tiers_ok w' = tiers_ok w" using tiers_ok_tick [where w = w and k = "tick w'"] a(2) by simp
  then show ?thesis using a(1) assms by simp
next
  assume "\<exists>r w' rows tot. transfer_tokens_between_fis e w from_fi to_fi serials = (Inr r, w')
      \<and> transfer_loop from_fi to_fi (clock_ms e (tick w)) serials (tokens w) 0 = Inr (rows, tot)
      \<and> tokens w' = rows \<and> minted_total w' = minted_total w"
  then obtain r w' rows tot where a:
    "transfer_tokens_between_fis e w from_fi to_fi serials = (Inr r, w')"
    "transfer_loop from_fi to_fi (clock_ms e (tick w)) serials (tokens w) 0 = Inr (rows, tot)"
    "tokens w' = rows" by blast
  have d: "distinct (map serial_number (tokens w))" using assms(2) by (simp add: ledger_ok_def)
  have t: "list_all tier_row (tokens w)" using assms(1) by (simp add: tiers_ok_def)
  have "list_all tier_row rows"
    using assms(4,3) d t a(2) by (rule transfer_loop_tier)
  then show ?thesis using a(1,3) by (simp add: tiers_ok_def)
qed

subsection \<open>Allocation keeps what minting and committing keep\<close>

lemma allocate_direct_preserves:
  assumes tick: "\<And>v. P v \<Longrightarrow> P (next_tick v)"
    and mint: "\<And>out. mint_outcome w out \<Longrightarrow> P (snd out)"
    and commit: "\<And>sel tot. P (snd (commit_allocation e w fid fi sel tot))"
    and fi: "find (\<lambda>f. fi_id f = fid) (financial_institutions w) = Some fi"
    and np: "\<not> first_pass_total w amount < amount"
  shows "\<exists>out. allocate_tokens_to_fi e w fid amount = Some out \<and> P (snd out)"
proof -
  obtain out1 where m: "mint_mixed_tokens e w amount (AllocationFor fid) = Some out1"
    "mint_outcome w out1"
    using mint_mixed_outcome by blast
  obtain res w1 where o: "out1 = (res, w1)" by (cases out1)
  have p1: "P w1" using mint [OF m(2)] o by simp
  have fin: "\<exists>out. allocate_tokens_to_fi e w fid amount = Some out \<and> P (snd out)"
    if "allocate_tokens_to_fi e w fid amount = Some c" and "P (snd c)" for c
    using that by blast
  have fin2: "\<exists>out. allocate_tokens_to_fi e w fid amount = Some out \<and> P (snd out)"
    if "allocate_tokens_to_fi e w fid amount = Some (r, v)" and "P v" for r v
    using that by auto
  show ?thesis
  proof (cases "amount < first_pass_total w amount")
    case over: True
    show ?thesis
    proof (cases "exact_pass_total w amount < amount")
      case True
      show ?thesis
      proof (cases res)
        case (Inl err)
        have "allocate_tokens_to_fi e w fid amount = Some (Inl err, w1)"
          unfolding allocate_direct [OF fi np] using over True m(1) o Inl by simp
        then show ?thesis using p1 by (rule fin2)
      next
        case (Inr r)
        have "allocate_tokens_to_fi e w fid amount = Some (Inl ProgrammingError, next_tick w1)"
          unfolding allocate_direct [OF fi np] using over True m(1) o Inr by simp
        then show ?thesis using tick [OF p1] by (rule fin2)
      qed
    next
      case False
      have "allocate_tokens_to_fi e w fid amount
          = Some (commit_allocation e w fid fi
                    (fst (exact_select (sort_key denomination (cb_vault w)) amount [] 0))
                    (exact_pass_total w amount))"
        unfolding allocate_direct [OF fi np] using over False by simp
      then show ?thesis using commit by (rule fin)
    qed
  next
    case False
    have "allocate_tokens_to_fi e w fid amount
        = Some (commit_allocation e w fid fi (fst (greedy_select (cb_vault w) amount [] 0))
                  (first_pass_total w amount))"
      unfolding allocate_direct [OF fi np] using False by simp
    then show ?thesis using commit by (rule fin)
  qed
qed

lemma allocate_preserves:
  assumes tick: "\<And>v. P v \<Longrightarrow> P (next_tick v)"
    and mint: "\<And>w out. P w \<Longrightarrow> mint_outcome w out \<Longrightarrow> P (snd out)"
    and commit: "\<And>w fi sel tot. P w \<Longrightarrow> P (snd (commit_allocation e w fid fi sel tot))"
    and w: "P w"
  shows "\<exists>out. allocate_tokens_to_fi e w fid amount = Some out \<and> P (snd out)"
proof (cases "find (\<lambda>f. fi_id f = fid) (financial_institutions w)")
  case None
  then show ?thesis using w by (simp add: allocate_not_found)
next
  case (Some fi)
  show ?thesis
  proof (cases "first_pass_total w amount < amount")
    case False
    show ?thesis
      using tick mint [OF w] commit [OF w] Some False by (rule allocate_direct_preserves)
  next
    case True
    obtain out1 where m: "mint_mixed_tokens e w (amount - first_pass_total w amount)
        (AdditionalFor fid) = Some out1" "mint_outcome w out1"
      using mint_mixed_outcome by blast
    obtain res w1 where o: "out1 = (res, w1)" by (cases out1)
    have p1: "P w1" using mint [OF w m(2)] o by simp
    show ?thesis
    proof (cases res)
      case (Inl err)
      have "allocate_tokens_to_fi e w fid amount = Some (Inl err, w1)"
        unfolding allocate_retry [OF Some True] using m(1) o Inl by simp
      then show ?thesis using p1 by auto
    next
      case (Inr r)
      have rs: "retry_state e w fid amount = Some w1"
        using Some True m(1) [unfolded o Inr] by (rule retry_stateI)
      obtain fi' where f: "find (\<lambda>f. fi_id f = fid) (financial_institutions w1) = Some fi'"
        "\<not> first_pass_total w1 amount < amount"
        using retry_state_facts [OF rs] by blast
      have "\<exists>out. allocate_tokens_to_fi e w1 fid amount = Some out \<and> P (snd out)"
        using tick mint [OF p1] commit [OF p1] f by (rule allocate_direct_preserves)
      moreover have "allocate_tokens_to_fi e w fid amount = allocate_tokens_to_fi e w1 fid amount"
        unfolding allocate_retry [OF Some True] using m(1) o Inr by simp
      ultimately show ?thesis by simp
    qed
  qed
qed

subsection \<open>Steps and runs\<close>

lemma step_ok:
  assumes "ledger_ok w"
  shows "\<exists>w'. step e w op = Some w' \<and> ledger_ok w'
           \<and> (tiers_ok w \<and> cb_free op \<longrightarrow> tiers_ok w')"
proof (cases op)
  case (MintTokens denom count purpose)
  then show ?thesis
    using assms ledger_ok_mint_outcome [OF _ mint_tokens_outcome]
      tiers_ok_mint_outcome [OF _ mint_tokens_outcome] by simp
next
  case (MintSpecific items purpose)
  then show ?thesis
    using assms ledger_ok_mint_outcome [OF _ mint_specific_outcome]
      tiers_ok_mint_outcome [OF _ mint_specific_outcome] by simp
next
  case (MintMixed amount purpose)
  obtain out where "mint_mixed_tokens e w amount purpose = Some out" "mint_outcome w out"
    using mint_mixed_outcome by blast
  then show ?thesis
    using MintMixed assms ledger_ok_mint_outcome tiers_ok_mint_outcome by auto
next
  case (RegisterFI fid name url)
  have "ledger_ok (snd (register_fi e w fid name url)) = ledger_ok w"
    using register_fi_tables by (intro ledger_ok_cong) auto
  moreover have "tiers_ok (snd (register_fi e w fid name url)) = tiers_ok w"
    using register_fi_tables by (intro tiers_ok_cong) auto
  ultimately show ?thesis using RegisterFI assms by simp
next
  case (Allocate fid amount)
  have "\<exists>out. allocate_tokens_to_fi e w fid amount = Some out \<and> ledger_ok (snd out)"
  proof (rule allocate_preserves [where P = ledger_ok])
    show "ledger_ok w" by (rule assms)
  next
    fix v
    assume "ledger_ok v"
    then show "ledger_ok (next_tick v)" by (simp add: next_tick_def ledger_ok_tick)
  next
    fix w out
    assume "ledger_ok w" "mint_outcome w out"
    then show "ledger_ok (snd out)" by (rule ledger_ok_mint_outcome)
  next
    fix w fi sel tot
    assume "ledger_ok w"
    then show "ledger_ok (snd (commit_allocation e w fid fi sel tot))" by (rule ledger_ok_commit)
  qed
  then obtain out where out: "allocate_tokens_to_fi e w fid amount = Some out"
    "ledger_ok (snd out)"
    by blast
  have "tiers_ok (snd out)" if t: "tiers_ok w" and c: "fid \<noteq> ''CB''"
  proof -
    have "\<exists>out. allocate_tokens_to_fi e w fid amount = Some out
        \<and> (ledger_ok (snd out) \<and> tiers_ok (snd out))"
    proof (rule allocate_preserves [where P = "\<lambda>w. ledger_ok w \<and> tiers_ok w"])
      show "ledger_ok w \<and> tiers_ok w" using assms t by simp
    next
      fix v
      assume "ledger_ok v \<and> tiers_ok v"
      then show "ledger_ok (next_tick v) \<and> tiers_ok (next_tick v)"
        by (simp add: next_tick_def ledger_ok_tick tiers_ok_tick)
    next
      fix w out
      assume "ledger_ok w \<and> tiers_ok w" "mint_outcome w out"
      then show "ledger_ok (snd out) \<and> tiers_ok (snd out)"
        using ledger_ok_mint_outcome tiers_ok_mint_outcome by blast
    next
      fix w fi sel tot
      assume "ledger_ok w \<and> tiers_ok w"
      then show "ledger_ok (snd (commit_allocation e w fid fi sel tot))
          \<and> tiers_ok (snd (commit_allocation e w fid fi sel tot))"
        using ledger_ok_commit tiers_ok_commit c by blast
    qed
    then show ?thesis using out(1) by auto
  qed
  then show ?thesis using Allocate out by auto
next
  case (Transfer from_fi to_fi serials)
  then show ?thesis
    using assms ledger_ok_transfer [OF assms] tiers_ok_transfer [OF _ assms] by auto
qed

lemma run_ok:
  "ledger_ok w \<Longrightarrow>
   \<exists>w'. run e w ops = Some w' \<and> ledger_ok w' \<and> (tiers_ok w \<and> list_all cb_free ops \<longrightarrow> tiers_ok w')"
proof (induction ops arbitrary: w)
  case Nil
  then show ?case by simp
next
  case (Cons op ops)
  obtain w1 where s: "step e w op = Some w1" "ledger_ok w1"
    "tiers_ok w \<and> cb_free op \<longrightarrow> tiers_ok w1"
    using step_ok [OF Cons.prems] by blast
  obtain w' where r: "run e w1 ops = Some w'" "ledger_ok w'"
    "tiers_ok w1 \<and> list_all cb_free ops \<longrightarrow> tiers_ok w'"
    using Cons.IH [OF s(2)] by blast
  show ?case using s r by auto
qed

subsection \<open>What the invariants say about the money supply\<close>

lemma active_rows:
  assumes "\<forall>r\<in>set rows. status r = Some ''active''"
  shows "filter (\<lambda>r. status r = Some ''active'') rows = rows"
    and "filter (\<lambda>r. status r = Some ''destroyed'') rows = []"
    and "filter (\<lambda>r. status r \<noteq> None \<and> status r \<noteq> Some ''destroyed'') rows = rows"
  using assms by (induction rows) auto

lemma supply_totals:
  assumes "ledger_ok w"
  shows "active_total w = minted_total w" and "destroyed_total w = 0"
    and "total_minted (get_money_supply w) = minted_total w"
  using assms active_rows [of "tokens w"]
  by (simp_all add: ledger_ok_def active_total_def destroyed_total_def sum_where_def
      get_money_supply_def Let_def)

lemma tier_sums:
  assumes "\<forall>r\<in>set rows. status r = Some ''active''" and "list_all tier_row rows"
  shows "sum_list (map denomination
           (filter (\<lambda>r. current_owner r = Some ''CB'' \<and> status r = Some ''active'') rows))
       + sum_list (map denomination
           (filter (\<lambda>r. owner_type r = Some ''fi'' \<and> status r = Some ''active'') rows))
       + sum_list (map denomination
           (filter (\<lambda>r. owner_type r = Some ''wallet'' \<and> status r = Some ''active'') rows))
       + sum_list (map denomination
           (filter (\<lambda>r. owner_type r = Some ''subwallet'' \<and> status r = Some ''active'') rows))
       = sum_list (map denomination rows)"
  using assms by (induction rows) (auto simp: tier_row_def)

lemma balanced:
  assumes "ledger_ok w" and "tiers_ok w"
  shows "is_balanced (get_money_supply w)"
proof -
  have a: "\<forall>r\<in>set (tokens w). status r = Some ''active''"
    using assms(1) by (simp add: ledger_ok_def)
  have t: "list_all tier_row (tokens w)" using assms(2) by (simp add: tiers_ok_def)
  show ?thesis
    using tier_sums [OF a t] active_rows(3) [OF a]
    by (simp add: get_money_supply_def Let_def sum_where_def)
qed

section \<open>Claim about conservation\<close>

text \<open>
  Claim C1 (money conservation), as the code has it. Every sequence of minting,
  registration, allocation and transfer calls, run from the empty database, returns; in
  the state it reaches (hence in the state after each of its prefixes) the value of the
  active tokens equals the value minted according to the ledger minus the value of the
  destroyed tokens, and \<open>total_minted\<close> of \<open>get_money_supply\<close> is that minted value. If
  moreover no allocation names \<^verbatim>\<open>'CB'\<close> as institution and no transfer names \<^verbatim>\<open>'CB'\<close> as
  sender or recipient, \<open>get_money_supply\<close> reports \<open>is_balanced\<close>.
\<close>

theorem run_conserves_money:
  "\<exists>w. run e init_db ops = Some w
     \<and> active_total w = minted_total w - destroyed_total w
     \<and> total_minted (get_money_supply w) = minted_total w
     \<and> (list_all cb_free ops \<longrightarrow> is_balanced (get_money_supply w))"
proof -
  obtain w where w: "run e init_db ops = Some w" "ledger_ok w"
    "tiers_ok init_db \<and> list_all cb_free ops \<longrightarrow> tiers_ok w"
    using run_ok [OF ledger_ok_init] by blast
  have "list_all cb_free ops \<longrightarrow> is_balanced (get_money_supply w)"
    using w(2,3) tiers_ok_init balanced by blast
  then show ?thesis using w(1) supply_totals [OF w(2)] by simp
qed

theorem run_conserves_money_witness:
  "list_all cb_free example_ops
   \<and> (\<exists>w. run env0 init_db example_ops = Some w
        \<and> active_total w = minted_total w - destroyed_total w
        \<and> total_minted (get_money_supply w) = minted_total w
        \<and> is_balanced (get_money_supply w))
   \<and> map_option (\<lambda>w. (active_total w, minted_total w, fi_balance w ''FI-A'', fi_balance w ''FI-B''))
        (run env0 init_db example_ops) = Some (150, 150, 0, 150)"
proof -
  have h: "list_all cb_free example_ops" by (simp add: example_ops_def)
  have v: "map_option (\<lambda>w. (active_total w, minted_total w, fi_balance w ''FI-A'', fi_balance w ''FI-B''))
        (run env0 init_db example_ops) = Some (150, 150, 0, 150)"
    by code_simp
  show ?thesis using h v run_conserves_money [of env0 example_ops] by blast
qed

text \<open>
  Claim C1 as stated fails for \<open>is_balanced\<close>: after minting one token of 100 and
  transferring it with \<^verbatim>\<open>'CB'\<close> as sender, the token is active and counted in
  \<open>total_minted\<close>, its owner is no longer the vault, and its owner type is still that of
  the vault, so no tier counts it.
\<close>

theorem unbalanced_after_transfer_from_vault:
  "map_option
     (\<lambda>w. (is_balanced (get_money_supply w), total_minted (get_money_supply w),
           in_cb_vault (get_money_supply w), in_fis (get_money_supply w),
           in_wallets (get_money_supply w), in_subwallets (get_money_supply w)))
     (run env0 init_db [MintTokens 100 1 (Text ''x''), Transfer ''CB'' ''FI-A'' [''s'']])
   = Some (False, 100, 0, 0, 0, 0)"
  by code_simp

section \<open>Claim about the precondition of a transfer\<close>



end
